theory Spec2Isabelle
  imports Main "HOL-Library.AList" "HOL-Library.Char_ord" "HOL-Library.List_Lexorder"
    "HOL-Library.Code_Target_Nat"
begin

section \<open>Data model\<close>

text \<open>
  Go strings and byte slices are byte sequences: \<open>string\<close> (a list of 8-bit \<open>char\<close>).
  A Go map is an association list with distinct keys; the order of the list is the
  order in which one \<open>range\<close> over the map visits the entries.
\<close>

type_synonym bytes = string

text \<open>Tokens returned by \<open>json.Decoder.Token\<close>. \<open>TNil\<close> is the nil interface
  (JSON \<open>null\<close>, or no token); a number token keeps its literal.\<close>

datatype token = TNil | TDelim char | TString string | TBool bool | TNumber string

datatype status_kind = StatusBadRequest | StatusBadResponse | StatusBadAPICall | StatusNetworkError

datatype go_error =
    EOF
  | ErrUnexpectedEOF
  | SyntaxError string
  | InvalidCharacter char string
  | UnmarshalTypeError string
  | ExpectedOpen token
  | ExpectedClose token
  | Statusf status_kind string
  | IOError string
  | Panic string

text \<open>An \<open>io.ReadCloser\<close>: the bytes it delivers, the error that ends them
  (\<open>None\<close> is a clean \<open>io.EOF\<close>), how often \<open>Close\<close> was called, and what
  \<open>Close\<close> returns.\<close>

record stream =
  data :: bytes
  read_err :: "go_error option"
  closed :: nat
  close_err :: "go_error option"

record Attachment =
  ContentType :: string
  Size :: int
  Content :: stream

type_synonym Attachments = "(string \<times> Attachment) list"

text \<open>The values of type \<open>interface{}\<close> that the encoder of this package builds.\<close>

datatype iface = INil | IString string | IBool bool | IMap "(string \<times> iface) list"

section \<open>db.Put\<close>

record put_request =
  req_docID :: string
  req_body :: bytes
  req_FullCommit :: bool

record put_result =
  ID :: string
  Rev :: string

text \<open>\<open>missingArg\<close> and \<open>fullCommit\<close> live in files of the package that are not part of
  the sources at hand; \<open>missingArg\<close> is a bad-request status error, and the outcome of
  \<open>fullCommit(false, options)\<close> and the client's \<open>DoJSON\<close> are parameters.\<close>

definition missingArg :: "string \<Rightarrow> go_error" where
  "missingArg arg = Statusf StatusBadRequest (''kivik: '' @ arg @ '' required'')"

definition Put :: "(go_error + bool) \<Rightarrow> (put_request \<Rightarrow> go_error + put_result) \<Rightarrow>
    string \<Rightarrow> bytes \<Rightarrow> string \<times> go_error option" where
  "Put fullCommit DoJSON docID doc =
     (if docID = [] then ([], Some (missingArg ''docID''))
      else case fullCommit of
        Inl err \<Rightarrow> ([], Some err)
      | Inr fc \<Rightarrow>
          (case DoJSON \<lparr>req_docID = docID, req_body = doc, req_FullCommit = fc\<rparr> of
             Inl err \<Rightarrow> ([], Some err)
           | Inr result \<Rightarrow>
               if ID result \<noteq> docID
               then (Rev result, Some (Statusf StatusBadResponse
                      (''modified document ID ('' @ ID result @
                       '') does not match that requested ('' @ docID @ '')'')))
               else (Rev result, None)))"

section \<open>Attachment stubs\<close>

definition attachmentsKey :: string where
  "attachmentsKey = ''_attachments''"

definition stub :: "Attachment \<Rightarrow> iface" where
  "stub att = IMap [(''content_type'', IString (ContentType att)), (''follows'', IBool True)]"

text \<open>\<open>attachmentStubs\<close>: nil for a nil pointer, else a fresh map filled by one
  \<open>range\<close> over the attachments.\<close>

definition attachmentStubs :: "Attachments option \<Rightarrow> (string \<times> iface) list option" where
  "attachmentStubs atts =
     (case atts of
        None \<Rightarrow> None
      | Some m \<Rightarrow> Some (foldl (\<lambda>result (filename, att). AList.update filename (stub att) result) [] m))"

section \<open>Bytes and UTF-8\<close>

definition byte :: "char \<Rightarrow> nat" where
  "byte c = of_char c"

abbreviation dquote :: char where "dquote \<equiv> CHR 0x22"
abbreviation bslash :: char where "bslash \<equiv> CHR 0x5C"

text \<open>\<open>isSpace\<close> of encoding/json: space, tab, carriage return, line feed.\<close>

definition isSpace :: "char \<Rightarrow> bool" where
  "isSpace c = (c = CHR '' '' \<or> c = CHR 0x09 \<or> c = CHR 0x0D \<or> c = CHR 0x0A)"

definition isDigit :: "char \<Rightarrow> bool" where
  "isDigit c = (byte (CHR ''0'') \<le> byte c \<and> byte c \<le> byte (CHR ''9''))"

definition isHex :: "char \<Rightarrow> bool" where
  "isHex c = (isDigit c
     \<or> (byte (CHR ''a'') \<le> byte c \<and> byte c \<le> byte (CHR ''f''))
     \<or> (byte (CHR ''A'') \<le> byte c \<and> byte c \<le> byte (CHR ''F'')))"

definition RuneError :: nat where
  "RuneError = 0xFFFD"

text \<open>\<open>utf8.DecodeRune\<close>: the rune at the head of the bytes and its width; an
  ill-formed head is \<open>(RuneError, 1)\<close>. The tables \<open>first\<close> and \<open>acceptRanges\<close> are
  written out as the ranges of the lead byte.\<close>

definition contb :: "char \<Rightarrow> bool" where
  "contb c = (0x80 \<le> byte c \<and> byte c \<le> 0xBF)"

definition accept_range :: "nat \<Rightarrow> nat \<times> nat" where
  "accept_range p0 =
     (if p0 = 0xE0 then (0xA0, 0xBF)
      else if p0 = 0xED then (0x80, 0x9F)
      else if p0 = 0xF0 then (0x90, 0xBF)
      else if p0 = 0xF4 then (0x80, 0x8F)
      else (0x80, 0xBF))"

definition lead_size :: "nat \<Rightarrow> nat" where
  "lead_size p0 =
     (if p0 < 0x80 then 1
      else if p0 < 0xC2 then 0
      else if p0 < 0xE0 then 2
      else if p0 < 0xF0 then 3
      else if p0 < 0xF5 then 4
      else 0)"

definition DecodeRune :: "bytes \<Rightarrow> nat \<times> nat" where
  "DecodeRune p =
     (case p of
        [] \<Rightarrow> (RuneError, 0)
      | c0 # p1 \<Rightarrow>
          let p0 = byte c0; sz = lead_size p0 in
          if sz = 1 then (p0, 1)
          else if sz = 0 then (RuneError, 1)
          else if length p < sz then (RuneError, 1)
          else
            let b1 = byte (p ! 1); (lo, hi) = accept_range p0 in
            if b1 < lo \<or> hi < b1 then (RuneError, 1)
            else if sz = 2 then ((p0 mod 0x20) * 0x40 + b1 mod 0x40, 2)
            else if \<not> contb (p ! 2) then (RuneError, 1)
            else if sz = 3 then ((p0 mod 0x10) * 0x1000 + (b1 mod 0x40) * 0x40 + byte (p ! 2) mod 0x40, 3)
            else if \<not> contb (p ! 3) then (RuneError, 1)
            else ((p0 mod 0x08) * 0x40000 + (b1 mod 0x40) * 0x1000
                    + (byte (p ! 2) mod 0x40) * 0x40 + byte (p ! 3) mod 0x40, 4))"

text \<open>\<open>utf8.EncodeRune\<close>; surrogates and runes beyond U+10FFFF become U+FFFD.\<close>

definition EncodeRune :: "nat \<Rightarrow> bytes" where
  "EncodeRune r =
     (if r \<le> 0x7F then [char_of r]
      else if r \<le> 0x7FF then [char_of (0xC0 + r div 0x40), char_of (0x80 + r mod 0x40)]
      else if r > 0x10FFFF \<or> (0xD800 \<le> r \<and> r \<le> 0xDFFF) then [CHR 0xEF, CHR 0xBF, CHR 0xBD]
      else if r \<le> 0xFFFF then
        [char_of (0xE0 + r div 0x1000), char_of (0x80 + (r div 0x40) mod 0x40), char_of (0x80 + r mod 0x40)]
      else
        [char_of (0xF0 + r div 0x40000), char_of (0x80 + (r div 0x1000) mod 0x40),
         char_of (0x80 + (r div 0x40) mod 0x40), char_of (0x80 + r mod 0x40)])"

section \<open>The scanner of encoding/json\<close>

text \<open>
  The scanner is a state machine: \<open>step\<close> names the current state function,
  \<open>parseState\<close> is the stack of enclosing composite values (the head is the innermost),
  \<open>scan_err\<close> the syntax error once one is found (Go's field \<open>err\<close>). Each state function takes the next byte
  and returns the new scanner and an op code.
\<close>

datatype step_fn =
    stateBeginValueOrEmpty | stateBeginValue | stateBeginStringOrEmpty | stateBeginString
  | stateEndValue | stateEndTop
  | stateInString | stateInStringEsc | stateInStringEscU | stateInStringEscU1
  | stateInStringEscU12 | stateInStringEscU123
  | stateNeg | state1 | state0 | stateDot | stateDot0 | stateE | stateESign | stateE0
  | stateT | stateTr | stateTru | stateF | stateFa | stateFal | stateFals
  | stateN | stateNu | stateNul
  | stateError

datatype parse_state = parseObjectKey | parseObjectValue | parseArrayValue

datatype scan_code =
    scanContinue | scanBeginLiteral | scanBeginObject | scanObjectKey | scanObjectValue
  | scanEndObject | scanBeginArray | scanArrayValue | scanEndArray | scanSkipSpace
  | scanEnd | scanError

record scanner =
  step :: step_fn
  parseState :: "parse_state list"
  scan_err :: "go_error option"

definition scan_reset :: scanner where
  "scan_reset = \<lparr>step = stateBeginValue, parseState = [], scan_err = None\<rparr>"

definition scan_error :: "scanner \<Rightarrow> char \<Rightarrow> string \<Rightarrow> scanner \<times> scan_code" where
  "scan_error s c context =
     (s\<lparr>step := stateError, scan_err := Some (InvalidCharacter c context)\<rparr>, scanError)"

definition goto :: "scanner \<Rightarrow> step_fn \<Rightarrow> scan_code \<Rightarrow> scanner \<times> scan_code" where
  "goto s st code = (s\<lparr>step := st\<rparr>, code)"

definition pushParseState :: "scanner \<Rightarrow> parse_state \<Rightarrow> scanner" where
  "pushParseState s p = s\<lparr>parseState := p # parseState s\<rparr>"

definition popParseState :: "scanner \<Rightarrow> scanner" where
  "popParseState s =
     (let ps = tl (parseState s)
      in s\<lparr>parseState := ps, step := (if ps = [] then stateEndTop else stateEndValue)\<rparr>)"

definition stateEndTop_fn :: "scanner \<Rightarrow> char \<Rightarrow> scanner \<times> scan_code" where
  "stateEndTop_fn s c =
     (if \<not> isSpace c then (fst (scan_error s c ''after top-level value''), scanEnd)
      else (s, scanEnd))"

definition stateEndValue_fn :: "scanner \<Rightarrow> char \<Rightarrow> scanner \<times> scan_code" where
  "stateEndValue_fn s c =
     (case parseState s of
        [] \<Rightarrow> stateEndTop_fn (s\<lparr>step := stateEndTop\<rparr>) c
      | ps # rest \<Rightarrow>
          if isSpace c then goto s stateEndValue scanSkipSpace
          else (case ps of
            parseObjectKey \<Rightarrow>
              if c = CHR '':''
              then (s\<lparr>parseState := parseObjectValue # rest, step := stateBeginValue\<rparr>, scanObjectKey)
              else scan_error s c ''after object key''
          | parseObjectValue \<Rightarrow>
              if c = CHR '',''
              then (s\<lparr>parseState := parseObjectKey # rest, step := stateBeginString\<rparr>, scanObjectValue)
              else if c = CHR ''}'' then (popParseState s, scanEndObject)
              else scan_error s c ''after object key:value pair''
          | parseArrayValue \<Rightarrow>
              if c = CHR '','' then goto s stateBeginValue scanArrayValue
              else if c = CHR '']'' then (popParseState s, scanEndArray)
              else scan_error s c ''after array element''))"

definition stateBeginValue_fn :: "scanner \<Rightarrow> char \<Rightarrow> scanner \<times> scan_code" where
  "stateBeginValue_fn s c =
     (if isSpace c then (s, scanSkipSpace)
      else if c = CHR ''{'' then (pushParseState (s\<lparr>step := stateBeginStringOrEmpty\<rparr>) parseObjectKey, scanBeginObject)
      else if c = CHR ''['' then (pushParseState (s\<lparr>step := stateBeginValueOrEmpty\<rparr>) parseArrayValue, scanBeginArray)
      else if c = dquote then goto s stateInString scanBeginLiteral
      else if c = CHR ''-'' then goto s stateNeg scanBeginLiteral
      else if c = CHR ''0'' then goto s state0 scanBeginLiteral
      else if c = CHR ''t'' then goto s stateT scanBeginLiteral
      else if c = CHR ''f'' then goto s stateF scanBeginLiteral
      else if c = CHR ''n'' then goto s stateN scanBeginLiteral
      else if byte (CHR ''1'') \<le> byte c \<and> byte c \<le> byte (CHR ''9'') then goto s state1 scanBeginLiteral
      else scan_error s c ''looking for beginning of value'')"

definition stateBeginValueOrEmpty_fn :: "scanner \<Rightarrow> char \<Rightarrow> scanner \<times> scan_code" where
  "stateBeginValueOrEmpty_fn s c =
     (if isSpace c then (s, scanSkipSpace)
      else if c = CHR '']'' then stateEndValue_fn s c
      else stateBeginValue_fn s c)"

definition stateBeginString_fn :: "scanner \<Rightarrow> char \<Rightarrow> scanner \<times> scan_code" where
  "stateBeginString_fn s c =
     (if isSpace c then (s, scanSkipSpace)
      else if c = dquote then goto s stateInString scanBeginLiteral
      else scan_error s c ''looking for beginning of object key string'')"

definition stateBeginStringOrEmpty_fn :: "scanner \<Rightarrow> char \<Rightarrow> scanner \<times> scan_code" where
  "stateBeginStringOrEmpty_fn s c =
     (if isSpace c then (s, scanSkipSpace)
      else if c = CHR ''}''
      then stateEndValue_fn (s\<lparr>parseState := parseObjectValue # tl (parseState s)\<rparr>) c
      else stateBeginString_fn s c)"

definition stateInString_fn :: "scanner \<Rightarrow> char \<Rightarrow> scanner \<times> scan_code" where
  "stateInString_fn s c =
     (if c = dquote then goto s stateEndValue scanContinue
      else if c = bslash then goto s stateInStringEsc scanContinue
      else if byte c < 0x20 then scan_error s c ''in string literal''
      else (s, scanContinue))"

definition stateInStringEsc_fn :: "scanner \<Rightarrow> char \<Rightarrow> scanner \<times> scan_code" where
  "stateInStringEsc_fn s c =
     (if c = CHR ''b'' \<or> c = CHR ''f'' \<or> c = CHR ''n'' \<or> c = CHR ''r'' \<or> c = CHR ''t''
         \<or> c = bslash \<or> c = CHR ''/'' \<or> c = dquote
      then goto s stateInString scanContinue
      else if c = CHR ''u'' then goto s stateInStringEscU scanContinue
      else scan_error s c ''in string escape code'')"

definition hex_state :: "scanner \<Rightarrow> char \<Rightarrow> step_fn \<Rightarrow> scanner \<times> scan_code" where
  "hex_state s c nxt =
     (if isHex c then goto s nxt scanContinue
      else scan_error s c (''in '' @ [bslash] @ ''u hexadecimal character escape''))"

definition stateNeg_fn :: "scanner \<Rightarrow> char \<Rightarrow> scanner \<times> scan_code" where
  "stateNeg_fn s c =
     (if c = CHR ''0'' then goto s state0 scanContinue
      else if byte (CHR ''1'') \<le> byte c \<and> byte c \<le> byte (CHR ''9'') then goto s state1 scanContinue
      else scan_error s c ''in numeric literal'')"

definition state0_fn :: "scanner \<Rightarrow> char \<Rightarrow> scanner \<times> scan_code" where
  "state0_fn s c =
     (if c = CHR ''.'' then goto s stateDot scanContinue
      else if c = CHR ''e'' \<or> c = CHR ''E'' then goto s stateE scanContinue
      else stateEndValue_fn s c)"

definition state1_fn :: "scanner \<Rightarrow> char \<Rightarrow> scanner \<times> scan_code" where
  "state1_fn s c =
     (if isDigit c then goto s state1 scanContinue
      else state0_fn s c)"

definition stateDot_fn :: "scanner \<Rightarrow> char \<Rightarrow> scanner \<times> scan_code" where
  "stateDot_fn s c =
     (if isDigit c then goto s stateDot0 scanContinue
      else scan_error s c ''after decimal point in numeric literal'')"

definition stateDot0_fn :: "scanner \<Rightarrow> char \<Rightarrow> scanner \<times> scan_code" where
  "stateDot0_fn s c =
     (if isDigit c then (s, scanContinue)
      else if c = CHR ''e'' \<or> c = CHR ''E'' then goto s stateE scanContinue
      else stateEndValue_fn s c)"

definition stateESign_fn :: "scanner \<Rightarrow> char \<Rightarrow> scanner \<times> scan_code" where
  "stateESign_fn s c =
     (if isDigit c then goto s stateE0 scanContinue
      else scan_error s c ''in exponent of numeric literal'')"

definition stateE_fn :: "scanner \<Rightarrow> char \<Rightarrow> scanner \<times> scan_code" where
  "stateE_fn s c =
     (if c = CHR ''+'' \<or> c = CHR ''-'' then goto s stateESign scanContinue
      else stateESign_fn s c)"

definition stateE0_fn :: "scanner \<Rightarrow> char \<Rightarrow> scanner \<times> scan_code" where
  "stateE0_fn s c =
     (if isDigit c then (s, scanContinue)
      else stateEndValue_fn s c)"

text \<open>The states inside the literals \<open>true\<close>, \<open>false\<close> and \<open>null\<close>: the expected
  byte leads to the next state, anything else is an error.\<close>

definition expect :: "scanner \<Rightarrow> char \<Rightarrow> char \<Rightarrow> step_fn \<Rightarrow> string \<Rightarrow> scanner \<times> scan_code" where
  "expect s c want nxt context =
     (if c = want then goto s nxt scanContinue
      else scan_error s c context)"

definition scan_step :: "scanner \<Rightarrow> char \<Rightarrow> scanner \<times> scan_code" where
  "scan_step s c =
     (case step s of
        stateBeginValueOrEmpty \<Rightarrow> stateBeginValueOrEmpty_fn s c
      | stateBeginValue \<Rightarrow> stateBeginValue_fn s c
      | stateBeginStringOrEmpty \<Rightarrow> stateBeginStringOrEmpty_fn s c
      | stateBeginString \<Rightarrow> stateBeginString_fn s c
      | stateEndValue \<Rightarrow> stateEndValue_fn s c
      | stateEndTop \<Rightarrow> stateEndTop_fn s c
      | stateInString \<Rightarrow> stateInString_fn s c
      | stateInStringEsc \<Rightarrow> stateInStringEsc_fn s c
      | stateInStringEscU \<Rightarrow> hex_state s c stateInStringEscU1
      | stateInStringEscU1 \<Rightarrow> hex_state s c stateInStringEscU12
      | stateInStringEscU12 \<Rightarrow> hex_state s c stateInStringEscU123
      | stateInStringEscU123 \<Rightarrow> hex_state s c stateInString
      | stateNeg \<Rightarrow> stateNeg_fn s c
      | state1 \<Rightarrow> state1_fn s c
      | state0 \<Rightarrow> state0_fn s c
      | stateDot \<Rightarrow> stateDot_fn s c
      | stateDot0 \<Rightarrow> stateDot0_fn s c
      | stateE \<Rightarrow> stateE_fn s c
      | stateESign \<Rightarrow> stateESign_fn s c
      | stateE0 \<Rightarrow> stateE0_fn s c
      | stateT \<Rightarrow> expect s c (CHR ''r'') stateTr ''in literal true (expecting 'r')''
      | stateTr \<Rightarrow> expect s c (CHR ''u'') stateTru ''in literal true (expecting 'u')''
      | stateTru \<Rightarrow> expect s c (CHR ''e'') stateEndValue ''in literal true (expecting 'e')''
      | stateF \<Rightarrow> expect s c (CHR ''a'') stateFa ''in literal false (expecting 'a')''
      | stateFa \<Rightarrow> expect s c (CHR ''l'') stateFal ''in literal false (expecting 'l')''
      | stateFal \<Rightarrow> expect s c (CHR ''s'') stateFals ''in literal false (expecting 's')''
      | stateFals \<Rightarrow> expect s c (CHR ''e'') stateEndValue ''in literal false (expecting 'e')''
      | stateN \<Rightarrow> expect s c (CHR ''u'') stateNu ''in literal null (expecting 'u')''
      | stateNu \<Rightarrow> expect s c (CHR ''l'') stateNul ''in literal null (expecting 'l')''
      | stateNul \<Rightarrow> expect s c (CHR ''l'') stateEndValue ''in literal null (expecting 'l')''
      | stateError \<Rightarrow> (s, scanError))"

section \<open>Unquoting string literals, converting numbers\<close>

definition hexval :: "char \<Rightarrow> nat" where
  "hexval c =
     (if isDigit c then byte c - byte (CHR ''0'')
      else if byte (CHR ''a'') \<le> byte c \<and> byte c \<le> byte (CHR ''f'') then byte c - byte (CHR ''a'') + 10
      else byte c - byte (CHR ''A'') + 10)"

text \<open>\<open>getu4\<close>: the rune of a \<open>\uXXXX\<close> escape at the head of the bytes, if there is one.\<close>

definition getu4 :: "bytes \<Rightarrow> nat option" where
  "getu4 s =
     (if length s < 6 \<or> s ! 0 \<noteq> bslash \<or> s ! 1 \<noteq> CHR ''u'' \<or> \<not> list_all isHex (take 4 (drop 2 s))
      then None
      else Some (foldl (\<lambda>r c. r * 16 + hexval c) 0 (take 4 (drop 2 s))))"

definition isSurrogate :: "nat \<Rightarrow> bool" where
  "isSurrogate r = (0xD800 \<le> r \<and> r < 0xE000)"

text \<open>\<open>utf16.DecodeRune\<close> on a first rune and what \<open>getu4\<close> found behind it.\<close>

definition utf16_DecodeRune :: "nat \<Rightarrow> nat option \<Rightarrow> nat" where
  "utf16_DecodeRune r1 r2o =
     (case r2o of
        None \<Rightarrow> RuneError
      | Some r2 \<Rightarrow>
          if 0xD800 \<le> r1 \<and> r1 < 0xDC00 \<and> 0xDC00 \<le> r2 \<and> r2 < 0xE000
          then (r1 - 0xD800) * 0x400 + (r2 - 0xDC00) + 0x10000
          else RuneError)"

text \<open>
  \<open>unquote_body\<close> is the loop of \<open>unquoteBytes\<close> over the bytes between the quotes;
  \<open>None\<close> is its \<open>ok = false\<close>. (The first loop of \<open>unquoteBytes\<close>, which returns the input
  itself when no byte needs work, is the same function on such input.)
\<close>

function unquote_body :: "bytes \<Rightarrow> bytes option" where
  "unquote_body [] = Some []"
| "unquote_body (c # cs) =
     (if c = bslash then
        (case cs of
           [] \<Rightarrow> None
         | e # rest \<Rightarrow>
             if e = dquote \<or> e = bslash \<or> e = CHR ''/'' \<or> e = CHR 0x27
               then map_option ((#) e) (unquote_body rest)
             else if e = CHR ''b'' then map_option ((#) (CHR 0x08)) (unquote_body rest)
             else if e = CHR ''f'' then map_option ((#) (CHR 0x0C)) (unquote_body rest)
             else if e = CHR ''n'' then map_option ((#) (CHR 0x0A)) (unquote_body rest)
             else if e = CHR ''r'' then map_option ((#) (CHR 0x0D)) (unquote_body rest)
             else if e = CHR ''t'' then map_option ((#) (CHR 0x09)) (unquote_body rest)
             else if e = CHR ''u'' then
               (case getu4 (c # cs) of
                  None \<Rightarrow> None
                | Some rr \<Rightarrow>
                    if isSurrogate rr then
                      (let dec = utf16_DecodeRune rr (getu4 (drop 5 cs))
                       in if dec \<noteq> RuneError
                          then map_option ((@) (EncodeRune dec)) (unquote_body (drop 11 cs))
                          else map_option ((@) (EncodeRune RuneError)) (unquote_body (drop 5 cs)))
                    else map_option ((@) (EncodeRune rr)) (unquote_body (drop 5 cs)))
             else None)
      else if c = dquote \<or> byte c < 0x20 then None
      else if byte c < 0x80 then map_option ((#) c) (unquote_body cs)
      else (case DecodeRune (c # cs) of
              (rr, width) \<Rightarrow> map_option ((@) (EncodeRune rr)) (unquote_body (drop (width - 1) cs))))"
  by pat_completeness auto
termination
  by (relation "measure length") auto

definition unquoteBytes :: "bytes \<Rightarrow> bytes option" where
  "unquoteBytes s =
     (if length s < 2 \<or> hd s \<noteq> dquote \<or> last s \<noteq> dquote then None
      else unquote_body (butlast (tl s)))"

text \<open>
  \<open>convertNumber\<close> fails when \<open>strconv.ParseFloat\<close> reports a range error: the literal,
  rounded to the nearest float64, overflows. That is the case from
  \<open>2^1024 - 2^970\<close> on, halfway between the largest float64 and \<open>2^1024\<close>.
\<close>

definition digits_val :: "bytes \<Rightarrow> nat" where
  "digits_val ds = foldl (\<lambda>a c. 10 * a + (byte c - byte (CHR ''0''))) 0 ds"

definition parse_number :: "bytes \<Rightarrow> nat \<times> int" where
  "parse_number item =
     (let body = (if item \<noteq> [] \<and> hd item = CHR ''-'' then tl item else item);
          mant = takeWhile (\<lambda>c. c \<noteq> CHR ''e'' \<and> c \<noteq> CHR ''E'') body;
          ex = drop (Suc (length mant)) body;
          ip = takeWhile (\<lambda>c. c \<noteq> CHR ''.'') mant;
          fp = drop (Suc (length ip)) mant;
          e = (case ex of
                 [] \<Rightarrow> 0
               | s # ds \<Rightarrow> if s = CHR ''-'' then - int (digits_val ds)
                           else if s = CHR ''+'' then int (digits_val ds)
                           else int (digits_val ex))
      in (digits_val (ip @ fp), e - int (length fp)))"

definition float64_overflow :: "bytes \<Rightarrow> bool" where
  "float64_overflow item =
     (case parse_number item of
        (m, e) \<Rightarrow>
          if 0 \<le> e then 2 ^ 1024 - 2 ^ 970 \<le> m * 10 ^ nat e
          else (2 ^ 1024 - 2 ^ 970) * 10 ^ nat (- e) \<le> m)"

section \<open>json.Decoder\<close>

datatype token_state =
    tokenTopValue | tokenArrayStart | tokenArrayValue | tokenArrayComma
  | tokenObjectStart | tokenObjectKey | tokenObjectColon | tokenObjectValue | tokenObjectComma

text \<open>
  The decoder reads its source through a buffer; \<open>buf\<close> is the input not yet consumed
  (\<open>dec.buf[dec.scanp:]\<close> followed by what the reader has not delivered yet) and
  \<open>rerr\<close> the error that ends the reader (\<open>None\<close> for \<open>io.EOF\<close>). The head of
  \<open>tokenStack\<close> is the innermost saved state.
\<close>

record decoder =
  buf :: bytes
  rerr :: "go_error option"
  tokenState :: token_state
  tokenStack :: "token_state list"

text \<open>What ends a reader, \<open>io.EOF\<close> being the clean end.\<close>

definition reader_err :: "stream \<Rightarrow> go_error option" where
  "reader_err r = (case read_err r of Some EOF \<Rightarrow> None | e \<Rightarrow> e)"

definition NewDecoder :: "stream \<Rightarrow> decoder" where
  "NewDecoder r = \<lparr>buf = data r, rerr = reader_err r, tokenState = tokenTopValue, tokenStack = []\<rparr>"

definition end_err :: "decoder \<Rightarrow> go_error" where
  "end_err d = (case rerr d of None \<Rightarrow> EOF | Some e \<Rightarrow> e)"

definition nonSpace :: "bytes \<Rightarrow> bool" where
  "nonSpace b = list_ex (\<lambda>c. \<not> isSpace c) b"

text \<open>
  \<open>readValue\<close>: the length of the next value in the buffer. \<open>scan_buffer\<close> is its
  loop over the bytes at hand: it stops at \<open>scanEnd\<close>, which comes one byte late, or
  right behind the bracket that closes a top-level object or array, or at a syntax error;
  when the bytes run out, \<open>readValue\<close> looks at the error that ended the reader.
\<close>

datatype scan_outcome = ValueEnd nat | ScanFailed go_error | BufferEnd scanner

fun scan_buffer :: "scanner \<Rightarrow> bytes \<Rightarrow> nat \<Rightarrow> scan_outcome" where
  "scan_buffer s [] n = BufferEnd s"
| "scan_buffer s (c # cs) n =
     (case scan_step s c of
        (s', v) \<Rightarrow>
          if v = scanEnd then ValueEnd n
          else if v = scanEndObject \<or> v = scanEndArray then
            (case stateEndValue_fn s' (CHR '' '') of
               (s'', v') \<Rightarrow> if v' = scanEnd then ValueEnd (Suc n) else scan_buffer s'' cs (Suc n))
          else if v = scanError then
            ScanFailed (case scan_err s' of Some e \<Rightarrow> e | None \<Rightarrow> SyntaxError [])
          else scan_buffer s' cs (Suc n))"

definition readValue :: "decoder \<Rightarrow> go_error + nat" where
  "readValue d =
     (case scan_buffer scan_reset (buf d) 0 of
        ValueEnd n \<Rightarrow> Inr n
      | ScanFailed e \<Rightarrow> Inl e
      | BufferEnd s \<Rightarrow>
          (case rerr d of
             Some e \<Rightarrow> Inl e
           | None \<Rightarrow>
               if snd (scan_step s (CHR '' '')) = scanEnd then Inr (length (buf d))
               else if nonSpace (buf d) then Inl ErrUnexpectedEOF
               else Inl EOF))"

definition tokenValueAllowed :: "decoder \<Rightarrow> bool" where
  "tokenValueAllowed d =
     (tokenState d = tokenTopValue \<or> tokenState d = tokenArrayStart
      \<or> tokenState d = tokenArrayValue \<or> tokenState d = tokenObjectValue)"

definition tokenValueEnd :: "decoder \<Rightarrow> decoder" where
  "tokenValueEnd d =
     (if tokenState d = tokenArrayStart \<or> tokenState d = tokenArrayValue
        then d\<lparr>tokenState := tokenArrayComma\<rparr>
      else if tokenState d = tokenObjectValue then d\<lparr>tokenState := tokenObjectComma\<rparr>
      else d)"

definition tokenPrepareForDecode :: "decoder \<Rightarrow> go_error + decoder" where
  "tokenPrepareForDecode d =
     (if tokenState d = tokenArrayComma then
        (case dropWhile isSpace (buf d) of
           [] \<Rightarrow> Inl (end_err d)
         | c # rest \<Rightarrow>
             if c \<noteq> CHR '','' then Inl (SyntaxError ''expected comma after array element'')
             else Inr (d\<lparr>buf := rest, tokenState := tokenArrayValue\<rparr>))
      else if tokenState d = tokenObjectColon then
        (case dropWhile isSpace (buf d) of
           [] \<Rightarrow> Inl (end_err d)
         | c # rest \<Rightarrow>
             if c \<noteq> CHR '':'' then Inl (SyntaxError ''expected colon after object key'')
             else Inr (d\<lparr>buf := rest, tokenState := tokenObjectValue\<rparr>))
      else Inr d)"

text \<open>\<open>Decode\<close> up to the call of \<open>unmarshal\<close>: the bytes of the next value and the
  decoder behind it, its token state fixed up.\<close>

definition Decode_item :: "decoder \<Rightarrow> go_error + (bytes \<times> decoder)" where
  "Decode_item d =
     (case tokenPrepareForDecode d of
        Inl e \<Rightarrow> Inl e
      | Inr d1 \<Rightarrow>
          if \<not> tokenValueAllowed d1 then Inl (SyntaxError ''not at beginning of value'')
          else (case readValue d1 of
                  Inl e \<Rightarrow> Inl e
                | Inr n \<Rightarrow> Inr (take n (buf d1), tokenValueEnd (d1\<lparr>buf := drop n (buf d1)\<rparr>))))"

text \<open>Unmarshalling into a \<open>json.RawMessage\<close> keeps the bytes of the value, without
  the white space in front of it.\<close>

definition Decode_RawMessage :: "decoder \<Rightarrow> go_error + (bytes \<times> decoder)" where
  "Decode_RawMessage d =
     (case Decode_item d of
        Inl e \<Rightarrow> Inl e
      | Inr (item, d') \<Rightarrow> Inr (dropWhile isSpace item, d'))"

text \<open>Unmarshalling into a string, and into an empty interface (only literals reach it
  through \<open>Token\<close>).\<close>

definition Decode_string :: "decoder \<Rightarrow> go_error + (string \<times> decoder)" where
  "Decode_string d =
     (case Decode_item d of
        Inl e \<Rightarrow> Inl e
      | Inr (item, d') \<Rightarrow>
          (case unquoteBytes (dropWhile isSpace item) of
             None \<Rightarrow> Inl (Panic ''JSON decoder out of sync'')
           | Some x \<Rightarrow> Inr (x, d')))"

definition unmarshal_literal :: "bytes \<Rightarrow> go_error + token" where
  "unmarshal_literal item =
     (case item of
        [] \<Rightarrow> Inl (Panic ''JSON decoder out of sync'')
      | c # _ \<Rightarrow>
          if c = CHR ''n'' then Inr TNil
          else if c = CHR ''t'' then Inr (TBool True)
          else if c = CHR ''f'' then Inr (TBool False)
          else if c = dquote then
            (case unquoteBytes item of
               None \<Rightarrow> Inl (Panic ''JSON decoder out of sync'')
             | Some x \<Rightarrow> Inr (TString x))
          else if float64_overflow item then Inl (UnmarshalTypeError (''number '' @ item))
          else Inr (TNumber item))"

definition Decode_any :: "decoder \<Rightarrow> go_error + (token \<times> decoder)" where
  "Decode_any d =
     (case Decode_item d of
        Inl e \<Rightarrow> Inl e
      | Inr (item, d') \<Rightarrow>
          (case unmarshal_literal (dropWhile isSpace item) of
             Inl e \<Rightarrow> Inl e
           | Inr x \<Rightarrow> Inr (x, d')))"

definition tokenError :: "decoder \<Rightarrow> char \<Rightarrow> go_error + (token \<times> decoder)" where
  "tokenError d c =
     Inl (InvalidCharacter c
       (if tokenState d = tokenTopValue \<or> tokenState d = tokenArrayStart
           \<or> tokenState d = tokenArrayValue \<or> tokenState d = tokenObjectValue
          then ''looking for beginning of value''
        else if tokenState d = tokenArrayComma then ''after array element''
        else if tokenState d = tokenObjectKey then ''looking for beginning of object key string''
        else if tokenState d = tokenObjectColon then ''after object key''
        else if tokenState d = tokenObjectComma then ''after object key:value pair''
        else []))"

lemma dropWhile_eq_Cons_length:
  "dropWhile P xs = c # rest \<Longrightarrow> length rest < length xs"
proof -
  assume h: "dropWhile P xs = c # rest"
  have "length (dropWhile P xs) \<le> length xs" by (rule length_dropWhile_le)
  with h show ?thesis by simp
qed

text \<open>\<open>Token\<close>: skip white space, then decide on the next byte. A colon or a comma in
  its place is consumed and the loop goes round again.\<close>

function Token :: "decoder \<Rightarrow> go_error + (token \<times> decoder)" where
  "Token d =
     (case dropWhile isSpace (buf d) of
        [] \<Rightarrow> Inl (end_err d)
      | c # rest \<Rightarrow>
          if c = CHR ''['' then
            (if \<not> tokenValueAllowed d then tokenError d c
             else Inr (TDelim c, d\<lparr>buf := rest, tokenState := tokenArrayStart,
                                   tokenStack := tokenState d # tokenStack d\<rparr>))
          else if c = CHR '']'' then
            (if tokenState d \<noteq> tokenArrayStart \<and> tokenState d \<noteq> tokenArrayComma then tokenError d c
             else (case tokenStack d of
                     [] \<Rightarrow> Inl (Panic ''index out of range'')
                   | ts # stk \<Rightarrow>
                       Inr (TDelim c, tokenValueEnd (d\<lparr>buf := rest, tokenState := ts, tokenStack := stk\<rparr>))))
          else if c = CHR ''{'' then
            (if \<not> tokenValueAllowed d then tokenError d c
             else Inr (TDelim c, d\<lparr>buf := rest, tokenState := tokenObjectStart,
                                   tokenStack := tokenState d # tokenStack d\<rparr>))
          else if c = CHR ''}'' then
            (if tokenState d \<noteq> tokenObjectStart \<and> tokenState d \<noteq> tokenObjectComma then tokenError d c
             else (case tokenStack d of
                     [] \<Rightarrow> Inl (Panic ''index out of range'')
                   | ts # stk \<Rightarrow>
                       Inr (TDelim c, tokenValueEnd (d\<lparr>buf := rest, tokenState := ts, tokenStack := stk\<rparr>))))
          else if c = CHR '':'' then
            (if tokenState d \<noteq> tokenObjectColon then tokenError d c
             else Token (d\<lparr>buf := rest, tokenState := tokenObjectValue\<rparr>))
          else if c = CHR '','' then
            (if tokenState d = tokenArrayComma then Token (d\<lparr>buf := rest, tokenState := tokenArrayValue\<rparr>)
             else if tokenState d = tokenObjectComma then Token (d\<lparr>buf := rest, tokenState := tokenObjectKey\<rparr>)
             else tokenError d c)
          else if c = dquote \<and> (tokenState d = tokenObjectStart \<or> tokenState d = tokenObjectKey) then
            (case Decode_string (d\<lparr>buf := c # rest, tokenState := tokenTopValue\<rparr>) of
               Inl e \<Rightarrow> Inl e
             | Inr (x, d') \<Rightarrow> Inr (TString x, d'\<lparr>tokenState := tokenObjectColon\<rparr>))
          else if \<not> tokenValueAllowed d then tokenError d c
          else Decode_any (d\<lparr>buf := c # rest\<rparr>))"
  by pat_completeness auto
termination
  by (relation "measure (\<lambda>d. length (buf d))") (auto dest: dropWhile_eq_Cons_length)

declare Token.simps [simp del]

subsection \<open>Every token and every value consumes input\<close>

lemma scan_buffer_bounds:
  "scan_buffer s cs n = ValueEnd m \<Longrightarrow> n \<le> m \<and> m \<le> n + length cs"
proof (induction cs arbitrary: s n)
  case Nil
  then show ?case by simp
next
  case (Cons c cs)
  then show ?case
    by (fastforce split: prod.splits if_splits)
qed

lemma stateBeginValue_not_end: "snd (stateBeginValue_fn s c) \<noteq> scanEnd"
  by (simp add: stateBeginValue_fn_def goto_def scan_error_def)

lemma stateBeginValue_not_close:
  "snd (stateBeginValue_fn s c) \<noteq> scanEndObject \<and> snd (stateBeginValue_fn s c) \<noteq> scanEndArray"
  by (simp add: stateBeginValue_fn_def goto_def scan_error_def)

lemma scan_step_reset: "scan_step scan_reset c = stateBeginValue_fn scan_reset c"
  by (simp add: scan_step_def scan_reset_def)

lemma scan_buffer_reset_pos:
  assumes "scan_buffer scan_reset cs 0 = ValueEnd n" shows "0 < n"
proof (cases cs)
  case Nil
  with assms show ?thesis by simp
next
  case (Cons c cs')
  obtain s' v where sv: "scan_step scan_reset c = (s', v)" by (cases "scan_step scan_reset c")
  have v1: "v \<noteq> scanEnd" and v2: "v \<noteq> scanEndObject" and v3: "v \<noteq> scanEndArray"
    using sv stateBeginValue_not_end [of scan_reset c] stateBeginValue_not_close [of scan_reset c]
    by (auto simp: scan_step_reset)
  from assms Cons sv v1 v2 v3 have "scan_buffer s' cs' (Suc 0) = ValueEnd n"
    by (auto split: if_splits)
  from scan_buffer_bounds [OF this] show ?thesis by simp
qed

lemma readValue_empty: "buf d = [] \<Longrightarrow> readValue d = Inl (end_err d)"
  by (simp add: readValue_def end_err_def nonSpace_def scan_step_reset stateBeginValue_fn_def isSpace_def
           split: option.splits)

lemma readValue_bounds:
  assumes "readValue d = Inr n" shows "0 < n \<and> n \<le> length (buf d)"
proof (cases "buf d = []")
  case True
  with assms readValue_empty [of d] show ?thesis by simp
next
  case False
  show ?thesis
  proof (cases "scan_buffer scan_reset (buf d) 0")
    case (ValueEnd m)
    with assms have "m = n" by (simp add: readValue_def)
    with ValueEnd scan_buffer_reset_pos [of "buf d" n] scan_buffer_bounds [of scan_reset "buf d" 0 n]
    show ?thesis by simp
  next
    case (ScanFailed e)
    with assms show ?thesis by (simp add: readValue_def)
  next
    case (BufferEnd s)
    with assms have "n = length (buf d)"
      by (auto simp: readValue_def split: option.splits if_splits)
    with False show ?thesis by simp
  qed
qed

lemma tokenPrepareForDecode_buf:
  "tokenPrepareForDecode d = Inr d1 \<Longrightarrow> length (buf d1) \<le> length (buf d)"
  by (auto simp: tokenPrepareForDecode_def split: if_splits list.splits
           dest!: dropWhile_eq_Cons_length)

lemma tokenValueEnd_buf [simp]: "buf (tokenValueEnd d) = buf d"
  by (simp add: tokenValueEnd_def)

lemma Decode_item_buf:
  "Decode_item d = Inr (item, d') \<Longrightarrow> length (buf d') < length (buf d)"
proof -
  assume h: "Decode_item d = Inr (item, d')"
  then obtain d1 n where p: "tokenPrepareForDecode d = Inr d1" and r: "readValue d1 = Inr n"
    and d': "d' = tokenValueEnd (d1\<lparr>buf := drop n (buf d1)\<rparr>)"
    by (auto simp: Decode_item_def split: sum.splits if_splits)
  from readValue_bounds [OF r] have "length (drop n (buf d1)) < length (buf d1)" by auto
  with tokenPrepareForDecode_buf [OF p] d' show ?thesis by simp
qed

lemma Decode_string_buf:
  "Decode_string d = Inr (x, d') \<Longrightarrow> length (buf d') < length (buf d)"
  by (auto simp: Decode_string_def split: sum.splits option.splits dest: Decode_item_buf)

lemma Decode_any_buf:
  "Decode_any d = Inr (x, d') \<Longrightarrow> length (buf d') < length (buf d)"
  by (auto simp: Decode_any_def split: sum.splits dest: Decode_item_buf)

lemma Decode_RawMessage_buf:
  "Decode_RawMessage d = Inr (v, d') \<Longrightarrow> length (buf d') < length (buf d)"
  by (auto simp: Decode_RawMessage_def split: sum.splits dest: Decode_item_buf)

lemma Token_buf: "Token d = Inr (t, d') \<Longrightarrow> length (buf d') < length (buf d)"
proof (induction d arbitrary: t d' rule: Token.induct)
  case (1 d)
  show ?case
  proof (cases "dropWhile isSpace (buf d)")
    case Nil
    with "1.prems" show ?thesis by (simp add: Token.simps [of d])
  next
    case (Cons c rest)
    note len = dropWhile_eq_Cons_length [OF Cons]
    note T = "1.prems" [unfolded Token.simps [of d] Cons list.case]
    consider (opn) "c = CHR ''['' \<or> c = CHR ''{''"
      | (cls) "c = CHR '']'' \<or> c = CHR ''}''"
      | (colon) "c = CHR '':''"
      | (comma) "c = CHR '',''"
      | (other) "c \<noteq> CHR ''[''" "c \<noteq> CHR ''{''" "c \<noteq> CHR '']''" "c \<noteq> CHR ''}''"
                "c \<noteq> CHR '':''" "c \<noteq> CHR '',''"
      by blast
    then show ?thesis
    proof cases
      case opn
      with T len show ?thesis
        by (auto simp: tokenError_def split: if_splits)
    next
      case cls
      with T len show ?thesis
        by (auto simp: tokenError_def split: if_splits list.splits)
    next
      case colon
      with T have st: "tokenState d = tokenObjectColon"
        and R: "Token (d\<lparr>buf := rest, tokenState := tokenObjectValue\<rparr>) = Inr (t, d')"
        by (auto simp: tokenError_def split: if_splits)
      have "length (buf d') < length (buf (d\<lparr>buf := rest, tokenState := tokenObjectValue\<rparr>))"
        using "1.IH"(1) [OF Cons _ _ _ _ colon _ R] st colon by simp
      with len show ?thesis by simp
    next
      case comma
      from comma T consider
          (arr) "tokenState d = tokenArrayComma"
                "Token (d\<lparr>buf := rest, tokenState := tokenArrayValue\<rparr>) = Inr (t, d')"
        | (obj) "tokenState d \<noteq> tokenArrayComma" "tokenState d = tokenObjectComma"
                "Token (d\<lparr>buf := rest, tokenState := tokenObjectKey\<rparr>) = Inr (t, d')"
        by (auto simp: tokenError_def split: if_splits)
      then show ?thesis
      proof cases
        case arr
        have "length (buf d') < length (buf (d\<lparr>buf := rest, tokenState := tokenArrayValue\<rparr>))"
          using "1.IH"(2) [OF Cons _ _ _ _ _ comma arr(1) arr(2)] comma by simp
        with len show ?thesis by simp
      next
        case obj
        have "length (buf d') < length (buf (d\<lparr>buf := rest, tokenState := tokenObjectKey\<rparr>))"
          using "1.IH"(3) [OF Cons _ _ _ _ _ comma obj(1) obj(2) obj(3)] comma by simp
        with len show ?thesis by simp
      qed
    next
      case other
      with T consider
          (key) x d1 where "Decode_string (d\<lparr>buf := c # rest, tokenState := tokenTopValue\<rparr>) = Inr (x, d1)"
                  "d' = d1\<lparr>tokenState := tokenObjectColon\<rparr>"
        | (val) "Decode_any (d\<lparr>buf := c # rest\<rparr>) = Inr (t, d')"
        by (auto simp: tokenError_def split: if_splits sum.splits)
      then show ?thesis
      proof cases
        case key
        from Decode_string_buf [OF key(1)] key(2) len show ?thesis by simp
      next
        case val
        from Decode_any_buf [OF val] len show ?thesis by simp
      qed
    qed
  qed
qed

section \<open>json.Encoder\<close>

definition hexdigit :: "nat \<Rightarrow> char" where
  "hexdigit n = ''0123456789abcdef'' ! (n mod 16)"

text \<open>\<open>htmlSafeSet\<close>: the ASCII bytes that the encoder writes as they are.\<close>

definition htmlSafe :: "char \<Rightarrow> bool" where
  "htmlSafe c = (0x20 \<le> byte c \<and> byte c < 0x80 \<and> c \<noteq> dquote \<and> c \<noteq> bslash
                 \<and> c \<noteq> CHR ''<'' \<and> c \<noteq> CHR ''>'' \<and> c \<noteq> CHR ''&'')"

text \<open>The loop of \<open>encodeState.string\<close> with HTML escaping, as \<open>json.Encoder\<close> has it
  by default.\<close>

function encode_chars :: "bytes \<Rightarrow> bytes" where
  "encode_chars [] = []"
| "encode_chars (c # cs) =
     (if byte c < 0x80 then
        (if htmlSafe c then c # encode_chars cs
         else if c = bslash \<or> c = dquote then bslash # c # encode_chars cs
         else if c = CHR 0x0A then bslash # CHR ''n'' # encode_chars cs
         else if c = CHR 0x0D then bslash # CHR ''r'' # encode_chars cs
         else if c = CHR 0x09 then bslash # CHR ''t'' # encode_chars cs
         else bslash # CHR ''u'' # CHR ''0'' # CHR ''0'' # hexdigit (byte c div 16) # hexdigit (byte c mod 16)
                # encode_chars cs)
      else (case DecodeRune (c # cs) of
              (r, width) \<Rightarrow>
                if r = RuneError \<and> width = 1 then bslash # ''ufffd'' @ encode_chars cs
                else if r = 0x2028 \<or> r = 0x2029
                  then bslash # ''u202'' @ hexdigit (r mod 16) # encode_chars (drop (width - 1) cs)
                else take width (c # cs) @ encode_chars (drop (width - 1) cs)))"
  by pat_completeness auto
termination
  by (relation "measure length") auto

definition encode_string :: "string \<Rightarrow> bytes" where
  "encode_string s = dquote # encode_chars s @ [dquote]"

text \<open>Marshalling a value: a map is written with its keys sorted.\<close>

fun intersperse :: "'a list \<Rightarrow> 'a list list \<Rightarrow> 'a list" where
  "intersperse sep [] = []"
| "intersperse sep [x] = x"
| "intersperse sep (x # y # ys) = x @ sep @ intersperse sep (y # ys)"

fun marshal :: "iface \<Rightarrow> bytes" where
  "marshal INil = ''null''"
| "marshal (IString s) = encode_string s"
| "marshal (IBool b) = (if b then ''true'' else ''false'')"
| "marshal (IMap m) =
     ''{'' @ intersperse '',''
       (map (\<lambda>(k, v). encode_string k @ '':'' @ marshal v) (sort_key fst m)) @ ''}''"

text \<open>\<open>Encoder.Encode\<close> of a \<open>map[string]interface{}\<close> (nil or not): the value and a
  newline.\<close>

definition Encode :: "(string \<times> iface) list option \<Rightarrow> bytes" where
  "Encode att =
     (case att of None \<Rightarrow> ''null'' | Some m \<Rightarrow> marshal (IMap m)) @ [CHR 0x0A]"

section \<open>copyWithAttachments\<close>

text \<open>
  The writer \<open>w\<close> is the write end of a pipe whose reader takes every byte: the model
  returns the bytes written and the error returned. The \<open>for\<close> loop is
  \<open>copyWithAttachments_loop\<close>; \<open>first\<close> and the bytes written so far are its state.
\<close>

function copyWithAttachments_loop ::
    "decoder \<Rightarrow> (string \<times> iface) list option \<Rightarrow> bool \<Rightarrow> bytes \<Rightarrow> bytes \<times> go_error option" where
  "copyWithAttachments_loop dec att first w =
     (case Token dec of
        Inl err \<Rightarrow> if err = EOF then (w, None) else (w, Some err)
      | Inr (t, dec1) \<Rightarrow>
          (case t of
             TString tp \<Rightarrow>
               (let w1 = (if \<not> first then w @ '','' else w);
                    w2 = w1 @ [dquote] @ tp @ [dquote] @ '':''
                in case Decode_RawMessage dec1 of
                     Inl e \<Rightarrow> (w2, Some e)
                   | Inr (val, dec2) \<Rightarrow>
                       if tp = attachmentsKey
                       then (w2 @ Encode att @ buf dec2, rerr dec2)
                       else copyWithAttachments_loop dec2 att False (w2 @ val))
           | TDelim tp \<Rightarrow>
               if tp \<noteq> CHR ''}'' then (w, Some (ExpectedClose t))
               else copyWithAttachments_loop dec1 att first (w @ ''}'')
           | TNil \<Rightarrow> copyWithAttachments_loop dec1 att first w
           | TBool b \<Rightarrow> copyWithAttachments_loop dec1 att first w
           | TNumber n \<Rightarrow> copyWithAttachments_loop dec1 att first w))"
  by pat_completeness auto
termination
  by (relation "measure (\<lambda>(dec, att, first, w). length (buf dec))")
     (auto dest!: Token_buf Decode_RawMessage_buf)

declare copyWithAttachments_loop.simps [simp del]

definition copyWithAttachments :: "stream \<Rightarrow> (string \<times> iface) list option \<Rightarrow> bytes \<times> go_error option" where
  "copyWithAttachments r att =
     (let dec = NewDecoder r in
      case Token dec of
        Inr (t, dec1) \<Rightarrow>
          if t \<noteq> TDelim (CHR ''{'') then ([], Some (ExpectedOpen t))
          else copyWithAttachments_loop dec1 att True ''{''
      | Inl err \<Rightarrow>
          if err \<noteq> EOF then ([], Some err)
          else copyWithAttachments_loop dec att True ''<nil>'')"

subsection \<open>The decoder's side of the loop\<close>

text \<open>
  \<open>find_attachments_key\<close> makes the calls of \<open>Token\<close> and \<open>Decode\<close> that the loop
  makes and writes nothing. It says how the loop leaves: having replaced the value of the
  attachments key (with the decoder as it stands behind that value), at the end of the
  input, or with an error. It is used to state properties of the loop only.
\<close>

datatype scan_result = Replaced decoder | Ended | Failed go_error

function find_attachments_key :: "decoder \<Rightarrow> scan_result" where
  "find_attachments_key dec =
     (case Token dec of
        Inl err \<Rightarrow> if err = EOF then Ended else Failed err
      | Inr (t, dec1) \<Rightarrow>
          (case t of
             TString tp \<Rightarrow>
               (case Decode_RawMessage dec1 of
                  Inl e \<Rightarrow> Failed e
                | Inr (val, dec2) \<Rightarrow>
                    if tp = attachmentsKey then Replaced dec2 else find_attachments_key dec2)
           | TDelim tp \<Rightarrow>
               if tp \<noteq> CHR ''}'' then Failed (ExpectedClose t) else find_attachments_key dec1
           | TNil \<Rightarrow> find_attachments_key dec1
           | TBool b \<Rightarrow> find_attachments_key dec1
           | TNumber n \<Rightarrow> find_attachments_key dec1))"
  by pat_completeness auto
termination
  by (relation "measure (\<lambda>dec. length (buf dec))")
     (auto dest!: Token_buf Decode_RawMessage_buf)

declare find_attachments_key.simps [simp del]

text \<open>\<open>consumes d d'\<close>: the decoder \<open>d'\<close> has read on from \<open>d\<close> in the same
  input.\<close>

definition consumes :: "decoder \<Rightarrow> decoder \<Rightarrow> bool" where
  "consumes d d' = ((\<exists>c. buf d = c @ buf d') \<and> rerr d' = rerr d)"


text \<open>The decoder behind the value of the attachments key, when the rewriter gets
  there.\<close>

definition attachments_value_end :: "stream \<Rightarrow> decoder option" where
  "attachments_value_end r =
     (case Token (NewDecoder r) of
        Inl err \<Rightarrow> None
      | Inr (t, dec1) \<Rightarrow>
          if t = TDelim (CHR ''{'')
          then (case find_attachments_key dec1 of Replaced dec2 \<Rightarrow> Some dec2 | Ended \<Rightarrow> None | Failed e \<Rightarrow> None)
          else None)"


section \<open>Streams, pipes and the multipart writer\<close>

text \<open>
  A pipe whose reader takes every byte delivers what was written, then the error given
  to \<open>CloseWithError\<close> (nil and \<open>io.EOF\<close> both read as a clean end); no write to it
  fails. A stream keeps \<open>data\<close> as what it delivers over its life; \<open>closed\<close> counts
  the calls of \<open>Close\<close>.
\<close>

definition pipe_reader :: "bytes \<Rightarrow> go_error option \<Rightarrow> stream" where
  "pipe_reader written err =
     \<lparr>data = written, read_err = (case err of Some EOF \<Rightarrow> None | e \<Rightarrow> e),
      closed = 0, close_err = None\<rparr>"

definition Close :: "stream \<Rightarrow> stream \<times> go_error option" where
  "Close s = (s\<lparr>closed := Suc (closed s)\<rparr>, close_err s)"

text \<open>\<open>io.Copy\<close> from a stream: the bytes copied and the error returned.\<close>

definition io_Copy :: "stream \<Rightarrow> bytes \<times> go_error option" where
  "io_Copy src = (data src, reader_err src)"

definition replaceAttachments :: "stream \<Rightarrow> Attachments option \<Rightarrow> stream \<times> stream" where
  "replaceAttachments inp atts =
     (case copyWithAttachments inp (attachmentStubs atts) of
        (written, err) \<Rightarrow>
          (case Close inp of
             (inp', e) \<Rightarrow> (pipe_reader written (if err = None then e else err), inp')))"

text \<open>
  \<open>multipart.Writer\<close>: \<open>CreatePart\<close> writes the delimiter line (after a line break
  unless it is the first part), the header lines with their keys sorted, and an empty
  line; \<open>Close\<close> writes the closing delimiter.
\<close>

abbreviation CRLF :: bytes where "CRLF \<equiv> [CHR 0x0D, CHR 0x0A]"

definition header_lines :: "(string \<times> string list) list \<Rightarrow> bytes" where
  "header_lines header =
     concat (map (\<lambda>(k, vs). concat (map (\<lambda>v. k @ '': '' @ v @ CRLF) vs)) (sort_key fst header))"

definition CreatePart :: "string \<Rightarrow> bool \<Rightarrow> (string \<times> string list) list \<Rightarrow> bytes" where
  "CreatePart boundary lastpart header =
     (if lastpart then CRLF @ ''--'' @ boundary @ CRLF else ''--'' @ boundary @ CRLF)
     @ header_lines header @ CRLF"

definition Writer_Close :: "string \<Rightarrow> bytes" where
  "Writer_Close boundary = CRLF @ ''--'' @ boundary @ ''--'' @ CRLF"

section \<open>createMultipart and multipartAttachments\<close>

text \<open>
  The loop of \<open>createMultipart\<close> over the attachments, in the order the \<open>range\<close>
  takes. \<open>quote\<close> is \<open>fmt.Sprintf\<close> with the verb \<open>%q\<close>. The result is what was
  written, the error returned, and the attachments with their streams as they are left.
\<close>

fun write_attachments ::
    "(string \<Rightarrow> string) \<Rightarrow> string \<Rightarrow> Attachments \<Rightarrow> bytes \<times> go_error option \<times> Attachments" where
  "write_attachments quote boundary [] = ([], None, [])"
| "write_attachments quote boundary ((filename, att) # rest) =
     (let file = CreatePart boundary True
                   [(''Content-Type'', [ContentType att]),
                    (''Content-Disposition'', [''attachment; filename='' @ quote filename])]
      in case io_Copy (Content att) of
           (copied, err) \<Rightarrow>
             if err \<noteq> None then (file @ copied, err, (filename, att) # rest)
             else (case write_attachments quote boundary rest of
                     (w, err', rest') \<Rightarrow>
                       (file @ copied @ w, err',
                        (filename, att\<lparr>Content := fst (Close (Content att))\<rparr>) # rest')))"

text \<open>\<open>createMultipart\<close>: bytes written, error, the document stream and the
  attachments as they are left. A nil \<open>atts\<close> is dereferenced by the \<open>range\<close>.\<close>

definition createMultipart ::
    "(string \<Rightarrow> string) \<Rightarrow> string \<Rightarrow> stream \<Rightarrow> Attachments option
       \<Rightarrow> bytes \<times> go_error option \<times> stream \<times> Attachments option" where
  "createMultipart quote boundary r atts =
     (let doc = CreatePart boundary False [(''Content-Type'', [''application/json''])]
      in case replaceAttachments r atts of
           (attJSON, r') \<Rightarrow>
             (case io_Copy attJSON of
                (copied, e) \<Rightarrow>
                  if e \<noteq> None then (doc @ copied, e, r', atts)
                  else (case atts of
                          None \<Rightarrow> (doc @ copied, Some (Panic ''nil pointer dereference''), r', atts)
                        | Some m \<Rightarrow>
                            (case write_attachments quote boundary m of
                               (w, err, m') \<Rightarrow>
                                 if err \<noteq> None then (doc @ copied @ w, err, r', Some m')
                                 else (doc @ copied @ w @ Writer_Close boundary, None, r', Some m')))))"

text \<open>\<open>multipartAttachments\<close>: the boundary, the read end of the pipe, and (to observe
  them) the document stream and the attachments as the producer leaves them.\<close>

definition multipartAttachments ::
    "(string \<Rightarrow> string) \<Rightarrow> string \<Rightarrow> stream \<Rightarrow> Attachments option
       \<Rightarrow> string \<times> stream \<times> stream \<times> Attachments option" where
  "multipartAttachments quote boundary inp att =
     (case createMultipart quote boundary inp att of
        (body, err, inp', att') \<Rightarrow>
          (case Close inp' of
             (inp'', e) \<Rightarrow>
               (boundary, pipe_reader body (if err = None then e else err), inp'', att')))"

section \<open>chttp.EncodeBody\<close>

datatype body_input = Bytes bytes | RawMessage bytes | String string | Other iface

definition EncodeBody :: "body_input \<Rightarrow> stream" where
  "EncodeBody i =
     pipe_reader
       (case i of
          Bytes t \<Rightarrow> t
        | RawMessage t \<Rightarrow> t
        | String t \<Rightarrow> t
        | Other v \<Rightarrow> marshal v @ [CHR 0x0A])
       None"

section \<open>extractAttachments\<close>

text \<open>
  A \<open>kivik.Attachments\<close> value is a map, that is a reference: nil, or the address of a
  map object. A \<open>*kivik.Attachments\<close> is nil or the address of a variable that holds
  such a reference. The heap gives the entries of every map object and the content of
  every variable; addresses from \<open>next_map\<close> and \<open>next_var\<close> on are free.
\<close>

record heap =
  maps :: "nat \<Rightarrow> Attachments"
  vars :: "nat \<Rightarrow> nat option"
  next_map :: nat
  next_var :: nat

text \<open>What an \<open>interface{}\<close> holds, as far as the type switch tells it apart.\<close>

datatype iface_val =
    VNil
  | VAttachments "nat option"
  | VAttachmentsPtr "nat option"
  | VOther

record field =
  json_tag :: string
  exported :: bool
  fvalue :: iface_val

text \<open>A document as \<open>reflect\<close> sees it: the nil interface, a pointer (nil or not), a
  \<open>map[string]interface{}\<close>, a struct, anything else.\<close>

datatype doc =
    DNil
  | DPtr "doc option"
  | DMap "(string \<times> iface_val) list"
  | DStruct "field list"
  | DOther

text \<open>The \<open>range\<close> of \<open>interfaceToAttachments\<close>: every entry visited is stored in
  the new map and deleted from the old one.\<close>

fun move_entries :: "Attachments \<Rightarrow> Attachments \<Rightarrow> Attachments \<Rightarrow> Attachments \<times> Attachments" where
  "move_entries [] t atts = (t, atts)"
| "move_entries ((k, v) # es) t atts = move_entries es (AList.delete k t) (AList.update k v atts)"

definition interfaceToAttachments :: "heap \<Rightarrow> iface_val \<Rightarrow> go_error + (heap \<times> nat option \<times> bool)" where
  "interfaceToAttachments h i =
     (case i of
        VAttachments t \<Rightarrow>
          (let a = next_map h; p = next_var h;
               h1 = h\<lparr>maps := (maps h)(a := []), next_map := Suc a\<rparr>;
               h2 = (case t of
                       None \<Rightarrow> h1
                     | Some ta \<Rightarrow>
                         (case move_entries (maps h1 ta) (maps h1 ta) (maps h1 a) of
                            (t', atts) \<Rightarrow> h1\<lparr>maps := (maps h1)(ta := t', a := atts)\<rparr>))
           in Inr (h2\<lparr>vars := (vars h2)(p := Some a), next_var := Suc p\<rparr>, Some p, True))
      | VAttachmentsPtr t \<Rightarrow>
          (case t of
             None \<Rightarrow> Inl (Panic ''nil pointer dereference'')
           | Some tp \<Rightarrow>
               (let p = next_var h
                in Inr (h\<lparr>vars := (vars h)(p := vars h tp, tp := None), next_var := Suc p\<rparr>, Some p, True)))
      | VNil \<Rightarrow> Inr (h, None, False)
      | VOther \<Rightarrow> Inr (h, None, False))"

text \<open>The loop over the fields of a struct: the first field tagged \<open>_attachments\<close>
  decides.\<close>

fun struct_fields :: "heap \<Rightarrow> field list \<Rightarrow> go_error + (heap \<times> nat option \<times> bool)" where
  "struct_fields h [] = Inr (h, None, False)"
| "struct_fields h (f # fs) =
     (if json_tag f = attachmentsKey
      then (if \<not> exported f then Inl (Panic ''reflect: unexported field'')
            else interfaceToAttachments h (fvalue f))
      else struct_fields h fs)"

fun extractAttachments :: "heap \<Rightarrow> doc \<Rightarrow> go_error + (heap \<times> nat option \<times> bool)" where
  "extractAttachments h DNil = Inl (Panic ''reflect: call of Type on zero Value'')"
| "extractAttachments h (DPtr None) = Inl (Panic ''reflect: call of Interface on zero Value'')"
| "extractAttachments h (DPtr (Some d)) = extractAttachments h d"
| "extractAttachments h (DMap stdMap) =
     interfaceToAttachments h (case map_of stdMap attachmentsKey of None \<Rightarrow> VNil | Some i \<Rightarrow> i)"
| "extractAttachments h (DStruct fs) = struct_fields h fs"
| "extractAttachments h DOther = Inr (h, None, False)"

text \<open>
  What the code looks at, read off the document without touching the heap: the value
  \<open>attachments_field\<close> of the attachments field (the entry of a map under
  \<open>_attachments\<close>, the first field of a struct with that tag, through any pointers
  to the document), and whether \<open>reflect\<close> gets that far without a panic
  (\<open>inspectable\<close>: the document is not nil, no pointer on the way is nil, and
  the tagged field of a struct is exported).
\<close>

fun attachments_field :: "doc \<Rightarrow> iface_val option" where
  "attachments_field (DPtr (Some d)) = attachments_field d"
| "attachments_field (DMap m) = map_of m attachmentsKey"
| "attachments_field (DStruct fs) = map_option fvalue (find (\<lambda>f. json_tag f = attachmentsKey) fs)"
| "attachments_field d = None"

fun inspectable :: "doc \<Rightarrow> bool" where
  "inspectable DNil = False"
| "inspectable (DPtr None) = False"
| "inspectable (DPtr (Some d)) = inspectable d"
| "inspectable (DStruct fs) =
     (case find (\<lambda>f. json_tag f = attachmentsKey) fs of None \<Rightarrow> True | Some f \<Rightarrow> exported f)"
| "inspectable d = True"

section \<open>Sample values\<close>

text \<open>A reader over a string that closes without error (\<open>ioutil.NopCloser\<close> of a
  \<open>strings.Reader\<close>), a reader that fails after its bytes, and an attachment.\<close>

definition NopCloser :: "bytes \<Rightarrow> stream" where
  "NopCloser s = \<lparr>data = s, read_err = None, closed = 0, close_err = None\<rparr>"

definition failing_reader :: "bytes \<Rightarrow> go_error \<Rightarrow> stream" where
  "failing_reader s e = \<lparr>data = s, read_err = Some e, closed = 0, close_err = None\<rparr>"

definition a_txt :: Attachment where
  "a_txt = \<lparr>ContentType = ''text/plain'', Size = 2, Content = NopCloser ''hi''\<rparr>"

definition broken_txt :: Attachment where
  "broken_txt = \<lparr>ContentType = ''text/plain'', Size = 0,
                  Content = failing_reader ''hi'' (IOError ''read failed'')\<rparr>"

text \<open>What \<open>%q\<close> makes of a string of printable ASCII without quotes or backslashes.\<close>

definition quote_plain :: "string \<Rightarrow> string" where
  "quote_plain s = [dquote] @ s @ [dquote]"

section \<open>The multipart wire format\<close>

text \<open>
  The format the body is to have, written down independently of the writer: every part
  is a delimiter line, its header lines, an empty line and its content; the parts are
  separated by line breaks, and the closing delimiter ends the body.
\<close>

definition part :: "string \<Rightarrow> string list \<Rightarrow> bytes \<Rightarrow> bytes" where
  "part boundary headers body =
     ''--'' @ boundary @ CRLF @ concat (map (\<lambda>h. h @ CRLF) headers) @ CRLF @ body"

definition multipart_body :: "string \<Rightarrow> (string list \<times> bytes) list \<Rightarrow> bytes" where
  "multipart_body boundary parts =
     intersperse CRLF (map (\<lambda>(headers, body). part boundary headers body) parts)
     @ CRLF @ ''--'' @ boundary @ ''--'' @ CRLF"

definition attachment_part :: "(string \<Rightarrow> string) \<Rightarrow> string \<times> Attachment \<Rightarrow> string list \<times> bytes" where
  "attachment_part quote = (\<lambda>(filename, att).
     ([''Content-Disposition: attachment; filename='' @ quote filename,
       ''Content-Type: '' @ ContentType att],
      data (Content att)))"


section \<open>Properties of Put\<close>

text \<open>
  C10. When the HTTP exchange of \<open>Put\<close> succeeds, a document ID in the server's result
  that differs from the requested one gives a bad-response error together with the
  server's revision; the revision comes back with a nil error only when the IDs agree.
\<close>

theorem Put_checks_returned_id:
  assumes "docID \<noteq> []" and "fullCommit = Inr fc"
    and "DoJSON \<lparr>req_docID = docID, req_body = doc, req_FullCommit = fc\<rparr> = Inr result"
  shows "(ID result \<noteq> docID \<longrightarrow>
            (\<exists>msg. Put fullCommit DoJSON docID doc = (Rev result, Some (Statusf StatusBadResponse msg))))
       \<and> (ID result = docID \<longrightarrow> Put fullCommit DoJSON docID doc = (Rev result, None))
       \<and> (snd (Put fullCommit DoJSON docID doc) = None \<longrightarrow> ID result = docID)"
  using assms by (simp add: Put_def)

theorem Put_checks_returned_id_witness:
  "Put (Inr False) (\<lambda>r. Inr \<lparr>ID = ''other'', Rev = ''1-abc''\<rparr>) ''doc1'' ''{}''
     = (''1-abc'', Some (Statusf StatusBadResponse
         ''modified document ID (other) does not match that requested (doc1)''))
   \<and> Put (Inr False) (\<lambda>r. Inr \<lparr>ID = ''doc1'', Rev = ''1-abc''\<rparr>) ''doc1'' ''{}'' = (''1-abc'', None)"
  using Put_checks_returned_id [of "''doc1''" "Inr False" False
      "\<lambda>r. Inr \<lparr>ID = ''other'', Rev = ''1-abc''\<rparr>" "''{}''" "\<lparr>ID = ''other'', Rev = ''1-abc''\<rparr>"]
    Put_checks_returned_id [of "''doc1''" "Inr False" False
      "\<lambda>r. Inr \<lparr>ID = ''doc1'', Rev = ''1-abc''\<rparr>" "''{}''" "\<lparr>ID = ''doc1'', Rev = ''1-abc''\<rparr>"]
  by (simp add: Put_def)

section \<open>Properties of attachmentStubs\<close>




lemma marshal_stub:
  "marshal (stub att) =
     [CHR ''{''] @ encode_string ''content_type'' @ '':'' @ encode_string (ContentType att) @ '',''
       @ encode_string ''follows'' @ '':true}''"
  by (simp add: stub_def)



section \<open>Properties of extractAttachments\<close>

lemma update_fresh: "k \<notin> set (map fst al) \<Longrightarrow> AList.update k v al = al @ [(k, v)]"
  by (induction al) auto

lemma move_entries_result:
  "distinct (map fst es) \<Longrightarrow> set (map fst es) \<inter> set (map fst acc) = {} \<Longrightarrow>
   move_entries es t acc = (filter (\<lambda>(k, v). k \<notin> set (map fst es)) t, acc @ es)"
proof (induction es arbitrary: t acc)
  case Nil
  show ?case by simp
next
  case (Cons e es)
  obtain k v where e: "e = (k, v)" by (cases e)
  from Cons.prems e have fresh: "k \<notin> set (map fst acc)" and d: "distinct (map fst es)"
    and k: "k \<notin> set (map fst es)"
    and disj: "set (map fst es) \<inter> set (map fst (acc @ [(k, v)])) = {}"
    by auto
  have "move_entries (e # es) t acc = move_entries es (AList.delete k t) (acc @ [(k, v)])"
    by (simp add: e update_fresh [OF fresh])
  also have "\<dots> = (filter (\<lambda>(k', v). k' \<notin> set (map fst es)) (AList.delete k t), (acc @ [(k, v)]) @ es)"
    by (rule Cons.IH [OF d disj])
  also have "filter (\<lambda>(k', v). k' \<notin> set (map fst es)) (AList.delete k t)
               = filter (\<lambda>(k', v). k' \<notin> set (map fst (e # es))) t"
    by (induction t) (auto simp: e)
  finally show ?case using e by simp
qed

lemma move_entries_all:
  "distinct (map fst es) \<Longrightarrow> move_entries es es [] = ([], es)"
proof -
  assume d: "distinct (map fst es)"
  have "filter (\<lambda>(k, v). k \<notin> set (map fst es)) es = []"
    by (force simp: filter_empty_conv)
  with move_entries_result [OF d, of "[]" es] show ?thesis by simp
qed

lemma struct_fields_find:
  "struct_fields h fs =
     (case find (\<lambda>f. json_tag f = attachmentsKey) fs of
        None \<Rightarrow> Inr (h, None, False)
      | Some f \<Rightarrow> if \<not> exported f then Inl (Panic ''reflect: unexported field'')
                  else interfaceToAttachments h (fvalue f))"
  by (induction fs) auto

lemma extractAttachments_field:
  "inspectable d \<Longrightarrow>
   extractAttachments h d
     = interfaceToAttachments h (case attachments_field d of None \<Rightarrow> VNil | Some i \<Rightarrow> i)"
proof (induction h d rule: extractAttachments.induct)
  case (5 h fs)
  then show ?case
    by (auto simp: struct_fields_find interfaceToAttachments_def split: option.splits)
next
  case (6 h)
  show ?case by (simp add: interfaceToAttachments_def)
qed simp_all

lemma interfaceToAttachments_absent:
  "i = VNil \<or> i = VOther \<Longrightarrow> interfaceToAttachments h i = Inr (h, None, False)"
  by (auto simp: interfaceToAttachments_def)

lemma interfaceToAttachments_map:
  assumes "t < next_map h" and "distinct (map fst (maps h t))"
  shows "\<exists>h' p a. interfaceToAttachments h (VAttachments (Some t)) = Inr (h', Some p, True)
           \<and> p = next_var h \<and> a = next_map h \<and> vars h' p = Some a \<and> a \<noteq> t
           \<and> maps h' a = maps h t \<and> maps h' t = []
           \<and> (\<forall>b. b \<noteq> a \<and> b \<noteq> t \<longrightarrow> maps h' b = maps h b)
           \<and> (\<forall>q. q \<noteq> p \<longrightarrow> vars h' q = vars h q)"
  using assms by (simp add: interfaceToAttachments_def Let_def move_entries_all)

lemma interfaceToAttachments_nil_map:
  "\<exists>h' p a. interfaceToAttachments h (VAttachments None) = Inr (h', Some p, True)
           \<and> p = next_var h \<and> a = next_map h \<and> vars h' p = Some a \<and> maps h' a = []
           \<and> (\<forall>b. b \<noteq> a \<longrightarrow> maps h' b = maps h b)
           \<and> (\<forall>q. q \<noteq> p \<longrightarrow> vars h' q = vars h q)"
  by (simp add: interfaceToAttachments_def Let_def)

lemma interfaceToAttachments_pointer:
  assumes "tp < next_var h"
  shows "\<exists>h' p. interfaceToAttachments h (VAttachmentsPtr (Some tp)) = Inr (h', Some p, True)
           \<and> p = next_var h \<and> p \<noteq> tp \<and> vars h' p = vars h tp \<and> vars h' tp = None
           \<and> maps h' = maps h
           \<and> (\<forall>q. q \<noteq> p \<and> q \<noteq> tp \<longrightarrow> vars h' q = vars h q)"
  using assms by (auto simp: interfaceToAttachments_def Let_def)

lemma extractAttachments_not_inspectable:
  "\<not> inspectable d \<Longrightarrow> \<exists>e. extractAttachments h d = Inl e"
  by (induction h d rule: extractAttachments.induct)
     (auto simp: struct_fields_find split: option.splits)

text \<open>
  C6, as the code has it, for every document that \<open>reflect\<close> can inspect.
  \<open>extractAttachments\<close> returns found = false and leaves the heap as it is when
  the document has no attachments field, or the field holds nil or a value of another
  type. When the field holds a \<open>kivik.Attachments\<close> map, found is true, whether
  the map has entries, is empty or is nil: the returned pointer is a new variable that
  refers to a new map, the entries of the source map are now the entries of the new
  map, the source map is left empty, and no other map or variable changes. When the
  field holds a non-nil \<open>*kivik.Attachments\<close>, found is true, the returned pointer
  is a new variable holding what the source variable held, the source variable is set
  to nil, and no map and no other variable changes.
\<close>

theorem extractAttachments_moves:
  assumes "inspectable d"
  shows "(attachments_field d = None \<or> attachments_field d = Some VNil \<or> attachments_field d = Some VOther
            \<longrightarrow> extractAttachments h d = Inr (h, None, False))
   \<and> (\<forall>t. attachments_field d = Some (VAttachments (Some t)) \<and> t < next_map h
            \<and> distinct (map fst (maps h t)) \<longrightarrow>
         (\<exists>h' p a. extractAttachments h d = Inr (h', Some p, True)
             \<and> p = next_var h \<and> a = next_map h \<and> vars h' p = Some a \<and> a \<noteq> t
             \<and> maps h' a = maps h t \<and> maps h' t = []
             \<and> (\<forall>b. b \<noteq> a \<and> b \<noteq> t \<longrightarrow> maps h' b = maps h b)
             \<and> (\<forall>q. q \<noteq> p \<longrightarrow> vars h' q = vars h q)))
   \<and> (attachments_field d = Some (VAttachments None) \<longrightarrow>
         (\<exists>h' p a. extractAttachments h d = Inr (h', Some p, True)
             \<and> p = next_var h \<and> a = next_map h \<and> vars h' p = Some a \<and> maps h' a = []
             \<and> (\<forall>b. b \<noteq> a \<longrightarrow> maps h' b = maps h b)
             \<and> (\<forall>q. q \<noteq> p \<longrightarrow> vars h' q = vars h q)))
   \<and> (\<forall>tp. attachments_field d = Some (VAttachmentsPtr (Some tp)) \<and> tp < next_var h \<longrightarrow>
         (\<exists>h' p. extractAttachments h d = Inr (h', Some p, True)
             \<and> p = next_var h \<and> p \<noteq> tp \<and> vars h' p = vars h tp \<and> vars h' tp = None
             \<and> maps h' = maps h
             \<and> (\<forall>q. q \<noteq> p \<and> q \<noteq> tp \<longrightarrow> vars h' q = vars h q)))"
proof -
  note E = extractAttachments_field [OF assms, of h]
  have a: "extractAttachments h d = Inr (h, None, False)"
    if "attachments_field d = None \<or> attachments_field d = Some VNil \<or> attachments_field d = Some VOther"
    using that E by (auto simp: interfaceToAttachments_absent)
  have b: "\<exists>h' p a. extractAttachments h d = Inr (h', Some p, True)
             \<and> p = next_var h \<and> a = next_map h \<and> vars h' p = Some a \<and> a \<noteq> t
             \<and> maps h' a = maps h t \<and> maps h' t = []
             \<and> (\<forall>b. b \<noteq> a \<and> b \<noteq> t \<longrightarrow> maps h' b = maps h b)
             \<and> (\<forall>q. q \<noteq> p \<longrightarrow> vars h' q = vars h q)"
    if "attachments_field d = Some (VAttachments (Some t))" "t < next_map h"
       "distinct (map fst (maps h t))" for t
    using interfaceToAttachments_map [OF that(2) that(3)] E that(1) by simp
  have b': "\<exists>h' p a. extractAttachments h d = Inr (h', Some p, True)
             \<and> p = next_var h \<and> a = next_map h \<and> vars h' p = Some a \<and> maps h' a = []
             \<and> (\<forall>b. b \<noteq> a \<longrightarrow> maps h' b = maps h b)
             \<and> (\<forall>q. q \<noteq> p \<longrightarrow> vars h' q = vars h q)"
    if "attachments_field d = Some (VAttachments None)"
    using interfaceToAttachments_nil_map [of h] E that by simp
  have c: "\<exists>h' p. extractAttachments h d = Inr (h', Some p, True)
             \<and> p = next_var h \<and> p \<noteq> tp \<and> vars h' p = vars h tp \<and> vars h' tp = None
             \<and> maps h' = maps h
             \<and> (\<forall>q. q \<noteq> p \<and> q \<noteq> tp \<longrightarrow> vars h' q = vars h q)"
    if "attachments_field d = Some (VAttachmentsPtr (Some tp))" "tp < next_var h" for tp
    using interfaceToAttachments_pointer [OF that(2)] E that(1) by simp
  from a b b' c show ?thesis by blast
qed

theorem extractAttachments_moves_witness:
  "(\<exists>h' p a. extractAttachments
        \<lparr>maps = (\<lambda>_. [(''a.txt'', a_txt)]), vars = (\<lambda>_. None), next_map = 1, next_var = 0\<rparr>
        (DPtr (Some (DStruct [\<lparr>json_tag = ''_id'', exported = True, fvalue = VOther\<rparr>,
                              \<lparr>json_tag = ''_attachments'', exported = True,
                                 fvalue = VAttachments (Some 0)\<rparr>])))
        = Inr (h', Some p, True)
      \<and> vars h' p = Some a \<and> a \<noteq> 0 \<and> maps h' a = [(''a.txt'', a_txt)] \<and> maps h' 0 = [])
   \<and> (\<exists>h' p. extractAttachments
        \<lparr>maps = (\<lambda>_. [(''a.txt'', a_txt)]), vars = (\<lambda>_. Some 0), next_map = 1, next_var = 1\<rparr>
        (DMap [(''_id'', VOther), (''_attachments'', VAttachmentsPtr (Some 0))])
        = Inr (h', Some p, True)
      \<and> p \<noteq> 0 \<and> vars h' p = Some 0 \<and> vars h' 0 = None \<and> maps h' 0 = [(''a.txt'', a_txt)])
   \<and> (\<exists>h' p a. extractAttachments
        \<lparr>maps = (\<lambda>_. [(''a.txt'', a_txt)]), vars = (\<lambda>_. None), next_map = 1, next_var = 0\<rparr>
        (DStruct [\<lparr>json_tag = ''_attachments'', exported = True, fvalue = VAttachments None\<rparr>])
        = Inr (h', Some p, True)
      \<and> vars h' p = Some a \<and> maps h' a = [] \<and> maps h' 0 = [(''a.txt'', a_txt)])
   \<and> extractAttachments
        \<lparr>maps = (\<lambda>_. [(''a.txt'', a_txt)]), vars = (\<lambda>_. None), next_map = 1, next_var = 0\<rparr>
        (DStruct [\<lparr>json_tag = ''_id'', exported = True, fvalue = VOther\<rparr>])
      = Inr (\<lparr>maps = (\<lambda>_. [(''a.txt'', a_txt)]), vars = (\<lambda>_. None), next_map = 1, next_var = 0\<rparr>,
             None, False)"
proof -
  let ?h1 = "\<lparr>maps = (\<lambda>_. [(''a.txt'', a_txt)]), vars = (\<lambda>_. None), next_map = 1, next_var = 0\<rparr>"
  let ?h2 = "\<lparr>maps = (\<lambda>_. [(''a.txt'', a_txt)]), vars = (\<lambda>_. Some 0), next_map = 1, next_var = 1\<rparr>"
  let ?d1 = "DPtr (Some (DStruct [\<lparr>json_tag = ''_id'', exported = True, fvalue = VOther\<rparr>,
                              \<lparr>json_tag = ''_attachments'', exported = True,
                                 fvalue = VAttachments (Some 0)\<rparr>]))"
  let ?d2 = "DMap [(''_id'', VOther), (''_attachments'', VAttachmentsPtr (Some 0))]"
  let ?d3 = "DStruct [\<lparr>json_tag = ''_attachments'', exported = True, fvalue = VAttachments None\<rparr>]"
  let ?d4 = "DStruct [\<lparr>json_tag = ''_id'', exported = True, fvalue = VOther\<rparr>]"
  have i1: "inspectable ?d1" and i2: "inspectable ?d2" and i3: "inspectable ?d3" and i4: "inspectable ?d4"
    by (simp_all add: attachmentsKey_def)
  have w1: "\<exists>h' p a. extractAttachments ?h1 ?d1 = Inr (h', Some p, True)
      \<and> vars h' p = Some a \<and> a \<noteq> 0 \<and> maps h' a = [(''a.txt'', a_txt)] \<and> maps h' 0 = []"
    using extractAttachments_moves [OF i1, of ?h1, THEN conjunct2, THEN conjunct1, rule_format, of 0]
    by (simp add: attachmentsKey_def) blast
  have w2: "\<exists>h' p. extractAttachments ?h2 ?d2 = Inr (h', Some p, True)
      \<and> p \<noteq> 0 \<and> vars h' p = Some 0 \<and> vars h' 0 = None \<and> maps h' 0 = [(''a.txt'', a_txt)]"
    using extractAttachments_moves [OF i2, of ?h2, THEN conjunct2, THEN conjunct2, THEN conjunct2,
        rule_format, of 0]
    by (simp add: attachmentsKey_def) force
  have w3: "\<exists>h' p a. extractAttachments ?h1 ?d3 = Inr (h', Some p, True)
      \<and> vars h' p = Some a \<and> maps h' a = [] \<and> maps h' 0 = [(''a.txt'', a_txt)]"
    using extractAttachments_moves [OF i3, of ?h1, THEN conjunct2, THEN conjunct2, THEN conjunct1]
    by (simp add: attachmentsKey_def) force
  have w4: "extractAttachments ?h1 ?d4 = Inr (?h1, None, False)"
    using extractAttachments_moves [OF i4, of ?h1, THEN conjunct1]
    by (simp add: attachmentsKey_def)
  from w1 w2 w3 w4 show ?thesis by (intro conjI)
qed

text \<open>
  A document whose attachments field holds an empty \<open>kivik.Attachments\<close> map: found
  is true, with a pointer to a fresh, empty map.
\<close>

theorem extractAttachments_empty_collection_found:
  "(case extractAttachments \<lparr>maps = (\<lambda>_. []), vars = (\<lambda>_. None), next_map = 1, next_var = 0\<rparr>
          (DMap [(''_attachments'', VAttachments (Some 0))]) of
      Inl e \<Rightarrow> False
    | Inr (h', p, found) \<Rightarrow> found \<and> p = Some 0 \<and> maps h' 0 = [])"
  by (simp add: interfaceToAttachments_def attachmentsKey_def)

section \<open>Properties of copyWithAttachments\<close>

lemma loop_error:
  "snd (copyWithAttachments_loop dec att first w) =
     (case find_attachments_key dec of Failed e \<Rightarrow> Some e | Ended \<Rightarrow> None | Replaced dec2 \<Rightarrow> rerr dec2)"
proof (induction dec att first w rule: copyWithAttachments_loop.induct)
  case (1 dec att first w)
  show ?case
  proof (cases "Token dec")
    case (Inl err)
    then show ?thesis
      by (simp add: copyWithAttachments_loop.simps [of dec] find_attachments_key.simps [of dec])
  next
    case (Inr p)
    obtain t dec1 where p: "p = (t, dec1)" by (cases p)
    note T = Inr [unfolded p]
    show ?thesis
    proof (cases t)
      case TNil
      with T "1.IH"(1) [OF Inr p [symmetric] TNil] show ?thesis
        by (simp add: copyWithAttachments_loop.simps [of dec] find_attachments_key.simps [of dec])
    next
      case (TDelim c)
      with T "1.IH"(2) [OF Inr p [symmetric] TDelim] show ?thesis
        by (simp add: copyWithAttachments_loop.simps [of dec] find_attachments_key.simps [of dec])
    next
      case (TString tp)
      show ?thesis
      proof (cases "Decode_RawMessage dec1")
        case (Inl e)
        with T TString show ?thesis
          by (simp add: copyWithAttachments_loop.simps [of dec] find_attachments_key.simps [of dec] Let_def)
      next
        case (Inr q)
        obtain val dec2 where q: "q = (val, dec2)" by (cases q)
        note D = Inr [unfolded q] and D0 = Inr
        show ?thesis
        proof (cases "tp = attachmentsKey")
          case True
          with T TString D show ?thesis
            by (simp add: copyWithAttachments_loop.simps [of dec] find_attachments_key.simps [of dec] Let_def)
        next
          case False
          with T TString D "1.IH"(3) [OF \<open>Token dec = Inr p\<close> p [symmetric] TString refl refl D0 q [symmetric] False] show ?thesis
            by (simp add: copyWithAttachments_loop.simps [of dec] find_attachments_key.simps [of dec] Let_def)
        qed
      qed
    next
      case (TBool b)
      with T "1.IH"(4) [OF Inr p [symmetric] TBool] show ?thesis
        by (simp add: copyWithAttachments_loop.simps [of dec] find_attachments_key.simps [of dec])
    next
      case (TNumber n)
      with T "1.IH"(5) [OF Inr p [symmetric] TNumber] show ?thesis
        by (simp add: copyWithAttachments_loop.simps [of dec] find_attachments_key.simps [of dec])
    qed
  qed
qed


lemma consumes_refl: "consumes d d"
  by (simp add: consumes_def)

lemma consumes_trans: "consumes d d1 \<Longrightarrow> consumes d1 d2 \<Longrightarrow> consumes d d2"
  by (auto simp: consumes_def)

lemma consumes_dropWhile:
  "dropWhile P (buf d) = c # rest \<Longrightarrow> buf d' = rest \<Longrightarrow> rerr d' = rerr d \<Longrightarrow> consumes d d'"
proof -
  assume h: "dropWhile P (buf d) = c # rest" and b: "buf d' = rest" and r: "rerr d' = rerr d"
  have "buf d = takeWhile P (buf d) @ dropWhile P (buf d)" by simp
  with h have "buf d = (takeWhile P (buf d) @ [c]) @ rest" by simp
  with b r show ?thesis unfolding consumes_def by blast
qed

lemma tokenValueEnd_rerr [simp]: "rerr (tokenValueEnd d) = rerr d"
  by (simp add: tokenValueEnd_def)

lemma tokenPrepareForDecode_consumes:
  "tokenPrepareForDecode d = Inr d1 \<Longrightarrow> consumes d d1"
  by (auto simp: tokenPrepareForDecode_def consumes_refl split: if_splits list.splits
           intro: consumes_dropWhile)

lemma Decode_item_consumes:
  "Decode_item d = Inr (item, d') \<Longrightarrow> consumes d d'"
proof -
  assume h: "Decode_item d = Inr (item, d')"
  then obtain d1 n where p: "tokenPrepareForDecode d = Inr d1"
    and d': "d' = tokenValueEnd (d1\<lparr>buf := drop n (buf d1)\<rparr>)"
    by (auto simp: Decode_item_def split: sum.splits if_splits)
  have "buf d1 = take n (buf d1) @ buf d'" using d' by simp
  moreover have "rerr d' = rerr d1" using d' by simp
  ultimately have "consumes d1 d'" unfolding consumes_def by blast
  with tokenPrepareForDecode_consumes [OF p] show ?thesis by (rule consumes_trans)
qed

lemma Decode_RawMessage_consumes:
  "Decode_RawMessage d = Inr (v, d') \<Longrightarrow> consumes d d'"
  by (auto simp: Decode_RawMessage_def split: sum.splits dest: Decode_item_consumes)

lemma Decode_string_consumes:
  "Decode_string d = Inr (x, d') \<Longrightarrow> consumes d d'"
  by (auto simp: Decode_string_def split: sum.splits option.splits dest: Decode_item_consumes)

lemma Decode_any_consumes:
  "Decode_any d = Inr (x, d') \<Longrightarrow> consumes d d'"
  by (auto simp: Decode_any_def split: sum.splits dest: Decode_item_consumes)

lemma Token_consumes: "Token d = Inr (t, d') \<Longrightarrow> consumes d d'"
proof (induction d arbitrary: t d' rule: Token.induct)
  case (1 d)
  show ?case
  proof (cases "dropWhile isSpace (buf d)")
    case Nil
    with "1.prems" show ?thesis by (simp add: Token.simps [of d])
  next
    case (Cons c rest)
    note T = "1.prems" [unfolded Token.simps [of d] Cons list.case]
    have step: "consumes d x" if "buf x = rest" "rerr x = rerr d" for x
      using Cons that by (rule consumes_dropWhile)
    have whole: "consumes d x" if "buf x = c # rest" "rerr x = rerr d" for x
    proof -
      have "buf d = takeWhile isSpace (buf d) @ dropWhile isSpace (buf d)" by simp
      with Cons that show ?thesis unfolding consumes_def by metis
    qed
    consider (opn) "c = CHR ''['' \<or> c = CHR ''{''"
      | (cls) "c = CHR '']'' \<or> c = CHR ''}''"
      | (colon) "c = CHR '':''"
      | (comma) "c = CHR '',''"
      | (other) "c \<noteq> CHR ''[''" "c \<noteq> CHR ''{''" "c \<noteq> CHR '']''" "c \<noteq> CHR ''}''"
                "c \<noteq> CHR '':''" "c \<noteq> CHR '',''"
      by blast
    then show ?thesis
    proof cases
      case opn
      with T show ?thesis
        by (auto simp: tokenError_def split: if_splits intro!: step)
    next
      case cls
      with T show ?thesis
        by (auto simp: tokenError_def split: if_splits list.splits intro!: step)
    next
      case colon
      with T have st: "tokenState d = tokenObjectColon"
        and R: "Token (d\<lparr>buf := rest, tokenState := tokenObjectValue\<rparr>) = Inr (t, d')"
        by (auto simp: tokenError_def split: if_splits)
      have "consumes (d\<lparr>buf := rest, tokenState := tokenObjectValue\<rparr>) d'"
        using "1.IH"(1) [OF Cons _ _ _ _ colon _ R] st colon by simp
      with step [of "d\<lparr>buf := rest, tokenState := tokenObjectValue\<rparr>"] show ?thesis
        by (auto intro: consumes_trans)
    next
      case comma
      from comma T consider
          (arr) "tokenState d = tokenArrayComma"
                "Token (d\<lparr>buf := rest, tokenState := tokenArrayValue\<rparr>) = Inr (t, d')"
        | (obj) "tokenState d \<noteq> tokenArrayComma" "tokenState d = tokenObjectComma"
                "Token (d\<lparr>buf := rest, tokenState := tokenObjectKey\<rparr>) = Inr (t, d')"
        by (auto simp: tokenError_def split: if_splits)
      then show ?thesis
      proof cases
        case arr
        have "consumes (d\<lparr>buf := rest, tokenState := tokenArrayValue\<rparr>) d'"
          using "1.IH"(2) [OF Cons _ _ _ _ _ comma arr(1) arr(2)] comma by simp
        with step [of "d\<lparr>buf := rest, tokenState := tokenArrayValue\<rparr>"] show ?thesis
          by (auto intro: consumes_trans)
      next
        case obj
        have "consumes (d\<lparr>buf := rest, tokenState := tokenObjectKey\<rparr>) d'"
          using "1.IH"(3) [OF Cons _ _ _ _ _ comma obj(1) obj(2) obj(3)] comma by simp
        with step [of "d\<lparr>buf := rest, tokenState := tokenObjectKey\<rparr>"] show ?thesis
          by (auto intro: consumes_trans)
      qed
    next
      case other
      with T consider
          (key) x d1 where "Decode_string (d\<lparr>buf := c # rest, tokenState := tokenTopValue\<rparr>) = Inr (x, d1)"
                  "d' = d1\<lparr>tokenState := tokenObjectColon\<rparr>"
        | (val) "Decode_any (d\<lparr>buf := c # rest\<rparr>) = Inr (t, d')"
        by (auto simp: tokenError_def split: if_splits sum.splits)
      then show ?thesis
      proof cases
        case key
        have "consumes d1 d'" using key(2) by (simp add: consumes_def)
        with Decode_string_consumes [OF key(1)]
          whole [of "d\<lparr>buf := c # rest, tokenState := tokenTopValue\<rparr>"]
        show ?thesis by (auto intro: consumes_trans)
      next
        case val
        with Decode_any_consumes [OF val] whole [of "d\<lparr>buf := c # rest\<rparr>"]
        show ?thesis by (auto intro: consumes_trans)
      qed
    qed
  qed
qed

lemma find_attachments_key_consumes:
  "find_attachments_key dec = Replaced dec2 \<Longrightarrow> consumes dec dec2"
proof (induction dec rule: find_attachments_key.induct)
  case (1 dec)
  note R = "1.prems" [unfolded find_attachments_key.simps [of dec]]
  from R obtain t dec1 where T: "Token dec = Inr (t, dec1)"
    by (auto split: sum.splits if_splits)
  note c1 = Token_consumes [OF T]
  show ?case
  proof (cases t)
    case TNil
    with R T "1.IH"(1) [OF T refl TNil] c1 show ?thesis
      by (auto intro: consumes_trans)
  next
    case (TDelim c)
    with R T "1.IH"(2) [OF T refl TDelim] c1 show ?thesis
      by (auto split: if_splits intro: consumes_trans)
  next
    case (TString tp)
    with R T obtain val dec' where D: "Decode_RawMessage dec1 = Inr (val, dec')"
      by (auto split: sum.splits)
    note c2 = Decode_RawMessage_consumes [OF D]
    show ?thesis
    proof (cases "tp = attachmentsKey")
      case True
      with R T TString D c1 c2 show ?thesis by (auto intro: consumes_trans)
    next
      case False
      with R T TString D "1.IH"(3) [OF T refl TString D refl False] c1 c2 show ?thesis
        by (auto intro: consumes_trans)
    qed
  next
    case (TBool b)
    with R T "1.IH"(4) [OF T refl TBool] c1 show ?thesis
      by (auto intro: consumes_trans)
  next
    case (TNumber n)
    with R T "1.IH"(5) [OF T refl TNumber] c1 show ?thesis
      by (auto intro: consumes_trans)
  qed
qed


lemma loop_output:
  "find_attachments_key dec = Replaced dec2 \<Longrightarrow>
   \<exists>pre. fst (copyWithAttachments_loop dec att first w) = w @ pre @ Encode att @ buf dec2"
proof (induction dec arbitrary: first w rule: find_attachments_key.induct)
  case (1 dec)
  note R = "1.prems" [unfolded find_attachments_key.simps [of dec]]
  from R obtain t dec1 where T: "Token dec = Inr (t, dec1)"
    by (auto split: sum.splits if_splits)
  note L = copyWithAttachments_loop.simps [of dec]
  show ?case
  proof (cases t)
    case TNil
    with R T "1.IH"(1) [OF T refl TNil, of first w] show ?thesis
      by (simp add: L)
  next
    case (TDelim c)
    with R T have c: "c = CHR ''}''" and F: "find_attachments_key dec1 = Replaced dec2"
      by (auto split: if_splits)
    from "1.IH"(2) [OF T refl TDelim _ F, of first "w @ ''}''"] c
    obtain pre where "fst (copyWithAttachments_loop dec1 att first (w @ ''}'')) = (w @ ''}'') @ pre @ Encode att @ buf dec2"
      by auto
    with T TDelim c have "fst (copyWithAttachments_loop dec att first w) = w @ (''}'' @ pre) @ Encode att @ buf dec2"
      by (simp add: L)
    then show ?thesis by blast
  next
    case (TString tp)
    with R T obtain val dec' where D: "Decode_RawMessage dec1 = Inr (val, dec')"
      by (auto split: sum.splits)
    define w2 where "w2 = (if \<not> first then '','' else [])  @ [dquote] @ tp @ [dquote] @ '':''"
    show ?thesis
    proof (cases "tp = attachmentsKey")
      case True
      with R T TString D have "dec' = dec2" by simp
      with T TString D True have "fst (copyWithAttachments_loop dec att first w) = w @ w2 @ Encode att @ buf dec2"
        by (cases first) (simp_all add: L Let_def w2_def)
      then show ?thesis by blast
    next
      case False
      with R T TString D have F: "find_attachments_key dec' = Replaced dec2" by simp
      from "1.IH"(3) [OF T refl TString D refl False F, of False "w @ w2 @ val"]
      obtain pre where "fst (copyWithAttachments_loop dec' att False (w @ w2 @ val)) = (w @ w2 @ val) @ pre @ Encode att @ buf dec2"
        by auto
      with T TString D False have "fst (copyWithAttachments_loop dec att first w) = w @ (w2 @ val @ pre) @ Encode att @ buf dec2"
        by (cases first) (simp_all add: L Let_def w2_def)
      then show ?thesis by blast
    qed
  next
    case (TBool b)
    with R T "1.IH"(4) [OF T refl TBool, of first w] show ?thesis
      by (simp add: L)
  next
    case (TNumber n)
    with R T "1.IH"(5) [OF T refl TNumber, of first w] show ?thesis
      by (simp add: L)
  qed
qed

text \<open>
  C5. When the rewriter reaches the attachments key, its output ends with the replacement
  followed by every byte of the input behind the key's value, as they are: the closing
  brace and whatever follows it included. Nothing else is written, and the only error left
  to return is the reader's own.
\<close>

theorem copyWithAttachments_copies_rest:
  assumes "attachments_value_end r = Some dec2"
  shows "\<exists>pre consumed. copyWithAttachments r att = (pre @ Encode att @ buf dec2, reader_err r)
            \<and> data r = consumed @ buf dec2"
proof -
  from assms obtain dec1 where T: "Token (NewDecoder r) = Inr (TDelim (CHR ''{''), dec1)"
    and F: "find_attachments_key dec1 = Replaced dec2"
    by (auto simp: attachments_value_end_def split: sum.splits if_splits scan_result.splits)
  from loop_output [OF F, of att True "''{''"] obtain pre where
    out: "fst (copyWithAttachments_loop dec1 att True ''{'') = ''{'' @ pre @ Encode att @ buf dec2"
    by blast
  have "consumes (NewDecoder r) dec2"
    using Token_consumes [OF T] find_attachments_key_consumes [OF F] by (rule consumes_trans)
  then obtain consumed where c: "data r = consumed @ buf dec2" and e: "rerr dec2 = reader_err r"
    by (auto simp: consumes_def NewDecoder_def)
  have "snd (copyWithAttachments_loop dec1 att True ''{'') = reader_err r"
    using F e by (simp add: loop_error)
  with out have "copyWithAttachments_loop dec1 att True ''{'' = ((''{'' @ pre) @ Encode att @ buf dec2, reader_err r)"
    by (simp add: prod_eq_iff)
  with T have "copyWithAttachments r att = ((''{'' @ pre) @ Encode att @ buf dec2, reader_err r)"
    by (simp add: copyWithAttachments_def)
  with c show ?thesis by blast
qed

theorem copyWithAttachments_copies_rest_witness:
  \<open>attachments_value_end (NopCloser ''{"_id":"doc1","_attachments":{"a.txt":{}},"x":1} tail'')
     = Some \<lparr>buf = '',"x":1} tail'', rerr = None, tokenState = tokenObjectComma,
             tokenStack = [tokenTopValue]\<rparr>
   \<and> (\<exists>pre consumed.
         copyWithAttachments (NopCloser ''{"_id":"doc1","_attachments":{"a.txt":{}},"x":1} tail'') None
           = (pre @ Encode None @ '',"x":1} tail'', None)
         \<and> ''{"_id":"doc1","_attachments":{"a.txt":{}},"x":1} tail'' = consumed @ '',"x":1} tail'')\<close>
proof -
  have h: \<open>attachments_value_end (NopCloser ''{"_id":"doc1","_attachments":{"a.txt":{}},"x":1} tail'')
     = Some \<lparr>buf = '',"x":1} tail'', rerr = None, tokenState = tokenObjectComma,
             tokenStack = [tokenTopValue]\<rparr>\<close>
    by code_simp
  from copyWithAttachments_copies_rest [OF h, of None] h show ?thesis
    by (simp add: NopCloser_def reader_err_def)
qed

text \<open>
  C4, as the code has it. The rewriter returns an error exactly when the first token is
  read and is not an opening brace, or reading the first token fails otherwise than by the
  end of the input, or, before the value of the attachments key is replaced, a token cannot
  be read (the end of the input apart, which ends the loop), a key's value cannot be
  decoded, or a delimiter other than a closing brace comes where a key is expected. Once
  the value is replaced only the reader's own error is left. On an empty input it returns
  no error.
\<close>

theorem copyWithAttachments_error:
  "snd (copyWithAttachments r att) =
     (case Token (NewDecoder r) of
        Inl err \<Rightarrow> if err = EOF then None else Some err
      | Inr (t, dec1) \<Rightarrow>
          if t = TDelim (CHR ''{'')
          then (case find_attachments_key dec1 of
                  Failed e \<Rightarrow> Some e
                | Ended \<Rightarrow> None
                | Replaced dec2 \<Rightarrow> reader_err r)
          else Some (ExpectedOpen t))"
proof (cases "Token (NewDecoder r)")
  case (Inl err)
  then show ?thesis
    by (simp add: copyWithAttachments_def copyWithAttachments_loop.simps [of "NewDecoder r"])
next
  case (Inr p)
  obtain t dec1 where p: "p = (t, dec1)" by (cases p)
  note T = Inr [unfolded p]
  have "rerr dec2 = reader_err r" if "find_attachments_key dec1 = Replaced dec2" for dec2
  proof -
    have "consumes (NewDecoder r) dec2"
      using Token_consumes [OF T] find_attachments_key_consumes [OF that] by (rule consumes_trans)
    then show ?thesis by (simp add: consumes_def NewDecoder_def)
  qed
  with T show ?thesis
    by (simp add: copyWithAttachments_def loop_error split: scan_result.splits)
qed

text \<open>On the empty input the first call of \<open>Token\<close> ends with \<open>io.EOF\<close>, and the
  rewriter returns no error.\<close>

theorem copyWithAttachments_empty_input:
  "Token (NewDecoder (NopCloser [])) = Inl EOF
   \<and> copyWithAttachments (NopCloser []) None = (''<nil>'', None)"
  by code_simp

section \<open>Properties of createMultipart and multipartAttachments\<close>

lemma header_order: "sort_key fst [(''Content-Type'', a), (''Content-Disposition'', b)]
    = [(''Content-Disposition'', b), (''Content-Type'', a)]"
proof -
  have "\<not> (''Content-Type'' \<le> ''Content-Disposition'')" by code_simp
  then show ?thesis by simp
qed

lemma CreatePart_attachment:
  "CreatePart boundary True [(''Content-Type'', [ct]), (''Content-Disposition'', [cd])]
    = CRLF @ part boundary [''Content-Disposition: '' @ cd, ''Content-Type: '' @ ct] []"
  by (simp add: CreatePart_def header_lines_def header_order part_def)

lemma CreatePart_document:
  "CreatePart boundary False [(''Content-Type'', [''application/json''])]
    = part boundary [''Content-Type: application/json''] []"
  by (simp add: CreatePart_def header_lines_def part_def)

lemma part_body: "part boundary headers [] @ body = part boundary headers body"
  by (simp add: part_def)

lemma write_attachments_ok:
  assumes "\<forall>(name, att) \<in> set atts. reader_err (Content att) = None"
  shows "write_attachments quote boundary atts =
           (concat (map (\<lambda>p. CRLF @ part boundary (fst (attachment_part quote p)) (snd (attachment_part quote p))) atts),
            None,
            map (\<lambda>(name, att). (name, att\<lparr>Content := fst (Close (Content att))\<rparr>)) atts)"
  using assms
proof (induction atts)
  case Nil
  show ?case by simp
next
  case (Cons x atts)
  obtain name att where x: "x = (name, att)" by (cases x)
  from Cons.prems x have ok: "reader_err (Content att) = None"
    and rest: "\<forall>(name, att) \<in> set atts. reader_err (Content att) = None" by auto
  show ?case
    by (simp add: x Cons.IH [OF rest] io_Copy_def ok CreatePart_attachment attachment_part_def part_def)
qed

lemma intersperse_Cons:
  "intersperse sep (x # xs) = x @ concat (map (\<lambda>y. sep @ y) xs)"
  by (induction xs arbitrary: x) auto

text \<open>
  C2, as the code has it. When the document part is produced without error, every
  attachment's content is read without error and closing the document stream gives no
  error, the body for N attachments consists of exactly N+1 parts under the declared
  boundary and ends with the closing delimiter. The first part has the header
  \<open>Content-Type: application/json\<close> and holds the rewritten document; the part of
  each attachment, in the order of the \<open>range\<close>, has \<open>Content-Type\<close> with the
  attachment's content type and \<open>Content-Disposition: attachment; filename=\<close> followed
  by the name as \<open>%q\<close> quotes it, and holds the attachment's bytes.
\<close>

theorem multipartAttachments_body:
  assumes "read_err (fst (replaceAttachments inp (Some atts))) = None"
    and "\<forall>(name, att) \<in> set atts. reader_err (Content att) = None"
    and "close_err inp = None"
  shows "(case multipartAttachments quote boundary inp (Some atts) of
            (b, body, inp', atts') \<Rightarrow>
              b = boundary \<and> read_err body = None
              \<and> data body =
                  multipart_body boundary
                    (([''Content-Type: application/json''],
                      data (fst (replaceAttachments inp (Some atts))))
                     # map (attachment_part quote) atts))
         \<and> length (([''Content-Type: application/json''], data (fst (replaceAttachments inp (Some atts))))
                     # map (attachment_part quote) atts) = Suc (length atts)"
proof -
  obtain attJSON inp1 where ra: "replaceAttachments inp (Some atts) = (attJSON, inp1)"
    by (cases "replaceAttachments inp (Some atts)")
  from assms(1) ra have e: "reader_err attJSON = None" by (simp add: reader_err_def)
  from ra have c1: "close_err inp1 = None"
    using assms(3) by (auto simp: replaceAttachments_def Close_def split: prod.splits)
  let ?w = "concat (map (\<lambda>p. CRLF @ part boundary (fst (attachment_part quote p)) (snd (attachment_part quote p))) atts)"
  let ?atts' = "map (\<lambda>(name, att). (name, att\<lparr>Content := fst (Close (Content att))\<rparr>)) atts"
  let ?doc = "part boundary [''Content-Type: application/json''] (data attJSON)"
  have cm: "createMultipart quote boundary inp (Some atts)
              = (?doc @ ?w @ Writer_Close boundary, None, inp1, Some ?atts')"
    by (simp add: createMultipart_def ra io_Copy_def e write_attachments_ok [OF assms(2)]
          CreatePart_document part_def)
  have ma: "multipartAttachments quote boundary inp (Some atts)
              = (boundary, pipe_reader (?doc @ ?w @ Writer_Close boundary) None,
                 fst (Close inp1), Some ?atts')"
    using c1 by (simp add: multipartAttachments_def cm Close_def)
  have mb: "multipart_body boundary (([''Content-Type: application/json''], data attJSON) # map (attachment_part quote) atts)
              = ?doc @ ?w @ Writer_Close boundary"
    by (simp add: multipart_body_def intersperse_Cons Writer_Close_def comp_def case_prod_beta)
  show ?thesis
    by (simp add: ma ra mb pipe_reader_def)
qed

theorem multipartAttachments_body_witness:
  \<open>(case multipartAttachments quote_plain ''XYZ'' (NopCloser ''{"_id":"doc1","_attachments":{}}'')
           (Some [(''a.txt'', a_txt)]) of
      (b, body, inp', atts') \<Rightarrow>
        b = ''XYZ'' \<and> read_err body = None
        \<and> data body =
            multipart_body ''XYZ''
              (([''Content-Type: application/json''],
                data (fst (replaceAttachments (NopCloser ''{"_id":"doc1","_attachments":{}}'')
                             (Some [(''a.txt'', a_txt)]))))
               # map (attachment_part quote_plain) [(''a.txt'', a_txt)]))
   \<and> data (fst (replaceAttachments (NopCloser ''{"_id":"doc1","_attachments":{}}'')
                  (Some [(''a.txt'', a_txt)])))
       = ''{"_id":"doc1","_attachments":{"a.txt":{"content_type":"text/plain","follows":true}}'' @ [CHR 0x0A] @ ''}''\<close>
proof -
  have h1: \<open>read_err (fst (replaceAttachments (NopCloser ''{"_id":"doc1","_attachments":{}}'')
                              (Some [(''a.txt'', a_txt)]))) = None\<close>
    by code_simp
  have h2: "\<forall>(name, att) \<in> set [(''a.txt'', a_txt)]. reader_err (Content att) = None"
    by (simp add: a_txt_def NopCloser_def reader_err_def)
  have h3: \<open>close_err (NopCloser ''{"_id":"doc1","_attachments":{}}'') = None\<close>
    by (simp add: NopCloser_def)
  have d: \<open>data (fst (replaceAttachments (NopCloser ''{"_id":"doc1","_attachments":{}}'')
                  (Some [(''a.txt'', a_txt)])))
       = ''{"_id":"doc1","_attachments":{"a.txt":{"content_type":"text/plain","follows":true}}'' @ [CHR 0x0A] @ ''}''\<close>
    by code_simp
  note body = multipartAttachments_body [OF h1 h2 h3, where quote = quote_plain and boundary = "''XYZ''"]
  from body [THEN conjunct1] d show ?thesis
    by (rule conjI)
qed

text \<open>
  A document stream that is not an object, with one attachment: the body is the header of
  the document part and then the error; there is no attachment part and no closing
  delimiter.
\<close>

theorem multipartAttachments_malformed_document:
  \<open>multipartAttachments quote_plain ''XYZ'' (NopCloser ''['') (Some [(''a.txt'', a_txt)])
     = (''XYZ'',
        pipe_reader (''--XYZ'' @ CRLF @ ''Content-Type: application/json'' @ CRLF @ CRLF)
          (Some (ExpectedOpen (TDelim (CHR ''['')))),
        (NopCloser ''['')\<lparr>closed := 2\<rparr>,
        Some [(''a.txt'', a_txt)])\<close>
  by code_simp

text \<open>
  C3 at a failing run. The first of two attachments delivers \<open>hi\<close> and then fails. The
  body ends behind those two bytes with the error, no part is started for the second
  attachment, and the document stream has been closed; but the stream of the failing
  attachment and the stream of the attachment not yet written are left open.
\<close>

theorem multipartAttachments_read_failure:
  \<open>multipartAttachments quote_plain ''XYZ'' (NopCloser ''{"_id":"doc1","_attachments":{}}'')
       (Some [(''a.txt'', broken_txt), (''b.txt'', a_txt)])
     = (''XYZ'',
        pipe_reader
          (''--XYZ'' @ CRLF @ ''Content-Type: application/json'' @ CRLF @ CRLF
           @ ''{"_id":"doc1","_attachments":{"a.txt":{"content_type":"text/plain","follows":true},''
           @ ''"b.txt":{"content_type":"text/plain","follows":true}}'' @ [CHR 0x0A] @ ''}''
           @ CRLF @ ''--XYZ'' @ CRLF @ ''Content-Disposition: attachment; filename="a.txt"'' @ CRLF
           @ ''Content-Type: text/plain'' @ CRLF @ CRLF @ ''hi'')
          (Some (IOError ''read failed'')),
        (NopCloser ''{"_id":"doc1","_attachments":{}}'')\<lparr>closed := 2\<rparr>,
        Some [(''a.txt'', broken_txt), (''b.txt'', a_txt)])
   \<and> closed (Content broken_txt) = 0 \<and> closed (Content a_txt) = 0\<close>
  by code_simp

text \<open>
  C1 at a key that needs escaping. The input is a well-formed object of ten bytes with
  the key \<open>a"b\<close>. The rewriter writes the decoded key between quotes as it is, and
  its output is no longer well-formed.
\<close>

theorem copyWithAttachments_unescaped_key:
  \<open>readValue (NewDecoder (NopCloser (''{"a'' @ [bslash] @ ''"b":1}''))) = Inr 10
   \<and> copyWithAttachments (NopCloser (''{"a'' @ [bslash] @ ''"b":1}'')) None = (''{"a"b":1}'', None)
   \<and> readValue (NewDecoder (NopCloser ''{"a"b":1}''))
       = Inl (InvalidCharacter (CHR ''b'') ''after object key'')\<close>
  by code_simp

end
